(* ===== verification/Prelude.thy ===== *)
theory Prelude
  imports Main "HOL-Library.Word" "HOL-Library.Multiset"
begin

text \<open>
  Shared vocabulary of the development: the machine integers of the service, panics as
  values, decimal rendering of indices, and the generic lemmas that the component theories
  use. The service is built and run in release mode (README, \<^verbatim>\<open>cargo run -r\<close>) and the
  manifest sets no overflow checks, so integer addition wraps; \<^typ>\<open>64 word\<close> is
  \<^verbatim>\<open>usize\<close> and \<^verbatim>\<open>u64\<close>.
\<close>

section \<open>Machine integers and strings\<close>

type_synonym usize = "64 word"
type_synonym u64 = "64 word"
type_synonym u32 = "32 word"
type_synonym u8 = "8 word"
type_synonym u256 = "256 word"
type_synonym bytes = "u8 list"

named_theorems outcome_simps \<open>unfolding rules for computations that may panic\<close>

section \<open>Panics as values\<close>

text \<open>A Rust computation either returns or panics with a message.\<close>

datatype 'a outcome = Ret 'a | Panic string

fun bind_outcome :: "'a outcome \<Rightarrow> ('a \<Rightarrow> 'b outcome) \<Rightarrow> 'b outcome" where
  "bind_outcome (Ret x) f = f x"
| "bind_outcome (Panic m) f = Panic m"

fun returns :: "'a outcome \<Rightarrow> bool" where
  "returns (Ret _) = True"
| "returns (Panic _) = False"

lemma bind_outcome_eq_Ret [outcome_simps]:
  "bind_outcome x f = Ret z \<longleftrightarrow> (\<exists>y. x = Ret y \<and> f y = Ret z)"
  by (cases x) auto

lemma bind_outcome_eq_Panic [outcome_simps]:
  "bind_outcome x f = Panic m \<longleftrightarrow> x = Panic m \<or> (\<exists>y. x = Ret y \<and> f y = Panic m)"
  by (cases x) auto

lemma returns_iff: "returns x \<longleftrightarrow> (\<exists>y. x = Ret y)"
  by (cases x) auto

lemma returns_bind [outcome_simps]:
  "returns (bind_outcome x f) \<longleftrightarrow> (\<exists>y. x = Ret y \<and> returns (f y))"
  by (cases x) auto

text \<open>The message of \<^verbatim>\<open>Option::unwrap\<close> on \<^verbatim>\<open>None\<close>.\<close>

definition unwrap_none :: string where
  "unwrap_none = ''called `Option::unwrap()` on a `None` value''"

text \<open>\<^verbatim>\<open>catch_unwind\<close>: a panic becomes a value.\<close>

fun catch_unwind :: "'a outcome \<Rightarrow> string + 'a" where
  "catch_unwind (Ret x) = Inr x"
| "catch_unwind (Panic m) = Inl m"

section \<open>Decimal rendering\<close>

text \<open>\<^verbatim>\<open>usize::to_string\<close>: decimal digits, no leading zeros.\<close>

definition digit_char :: "nat \<Rightarrow> char" where
  "digit_char d = char_of (48 + d)"

fun nat_to_string :: "nat \<Rightarrow> string" where
  "nat_to_string n = (if n < 10 then [digit_char n] else nat_to_string (n div 10) @ [digit_char (n mod 10)])"

declare nat_to_string.simps [simp del]

definition usize_to_string :: "usize \<Rightarrow> string" where
  "usize_to_string w = nat_to_string (unat w)"

text \<open>Reading the digits back, for the proof that the rendering is injective.\<close>

definition digit_value :: "char \<Rightarrow> nat" where
  "digit_value c = of_char c - 48"

definition string_to_nat :: "string \<Rightarrow> nat" where
  "string_to_nat s = foldl (\<lambda>acc c. 10 * acc + digit_value c) 0 s"

lemma digit_value_char: "d < 10 \<Longrightarrow> digit_value (digit_char d) = d"
  by (simp add: digit_value_def digit_char_def)

lemma string_to_nat_snoc: "string_to_nat (s @ [c]) = 10 * string_to_nat s + digit_value c"
  by (simp add: string_to_nat_def)

lemma string_to_nat_to_string: "string_to_nat (nat_to_string n) = n"
proof (induction n rule: nat_to_string.induct)
  case (1 n)
  show ?case
  proof (cases "n < 10")
    case True
    then show ?thesis
      by (simp add: nat_to_string.simps [of n] string_to_nat_def digit_value_char)
  next
    case False
    with "1.IH" have "string_to_nat (nat_to_string (n div 10)) = n div 10" by simp
    with False show ?thesis
      by (simp add: nat_to_string.simps [of n] string_to_nat_snoc digit_value_char)
  qed
qed

lemma usize_to_string_inject [simp]: "usize_to_string a = usize_to_string b \<longleftrightarrow> a = b"
proof
  assume "usize_to_string a = usize_to_string b"
  then have "string_to_nat (nat_to_string (unat a)) = string_to_nat (nat_to_string (unat b))"
    by (simp add: usize_to_string_def)
  then show "a = b" by (simp add: string_to_nat_to_string unsigned_word_eqI)
qed simp

section \<open>Lists and words\<close>

lemma unat_of_nat_usize [simp]: "n < 2 ^ 64 \<Longrightarrow> unat (of_nat n :: usize) = n"
  by (simp add: unat_of_nat take_bit_nat_eq_self)

lemma unat_usize_bound: "unat (a :: usize) < 2 ^ 64"
  using unsigned_less [where ?'a = nat, of a] by simp

lemma unat_Suc_usize: "unat (a :: usize) < unat (b :: usize) \<Longrightarrow> unat (a + 1) = Suc (unat a)"
  using unat_usize_bound [of b] by (simp add: unat_word_ariths)

section \<open>Positional numerals\<close>

text \<open>The \<open>k\<close> lowest digits of a number, most significant first; base 16 and base 256.\<close>

fun to_base :: "nat \<Rightarrow> nat \<Rightarrow> nat \<Rightarrow> nat list" where
  "to_base b 0 n = []"
| "to_base b (Suc k) n = to_base b k (n div b) @ [n mod b]"

definition from_base :: "nat \<Rightarrow> nat list \<Rightarrow> nat" where
  "from_base b ds = foldl (\<lambda>a d. a * b + d) 0 ds"

lemma length_to_base [simp]: "length (to_base b k n) = k"
  by (induction k arbitrary: n) auto

lemma to_base_digits: "0 < b \<Longrightarrow> d \<in> set (to_base b k n) \<Longrightarrow> d < b"
  by (induction k arbitrary: n) auto

lemma from_base_snoc: "from_base b (ds @ [d]) = from_base b ds * b + d"
  by (simp add: from_base_def)

lemma from_base_to_base: "from_base b (to_base b k n) = n mod b ^ k"
proof (induction k arbitrary: n)
  case (Suc k)
  have "n mod b ^ Suc k = n div b mod b ^ k * b + n mod b"
    by (simp add: mod_mult2_eq mult.commute)
  with Suc show ?case by (simp add: from_base_snoc)
qed (simp add: from_base_def)

definition be_bytes :: "nat \<Rightarrow> nat \<Rightarrow> bytes" where
  "be_bytes k n = map of_nat (to_base 256 k n)"

definition hex_char :: "nat \<Rightarrow> char" where
  "hex_char d = (if d < 10 then char_of (48 + d) else char_of (87 + d))"

definition hex_value :: "char \<Rightarrow> nat option" where
  "hex_value c = (let n = (of_char c :: nat) in
     if 48 \<le> n \<and> n \<le> 57 then Some (n - 48)
     else if 97 \<le> n \<and> n \<le> 102 then Some (n - 87)
     else if 65 \<le> n \<and> n \<le> 70 then Some (n - 55)
     else None)"

lemma hex_value_char: "d < 16 \<Longrightarrow> hex_value (hex_char d) = Some d"
  by (auto simp: hex_value_def hex_char_def Let_def)

lemma of_char_hex_char: "d < 16 \<Longrightarrow> of_char (hex_char d) = (if d < 10 then 48 + d else 87 + d)"
  by (simp add: hex_char_def)

lemma length_be_bytes [simp]: "length (be_bytes k n) = k"
  by (simp add: be_bytes_def)

lemma from_base_be_bytes: "from_base 256 (map unat (be_bytes k n)) = n mod 256 ^ k"
proof -
  have "map (\<lambda>d. unat (of_nat d :: u8)) (to_base 256 k n) = to_base 256 k n"
    using to_base_digits [of 256 _ k n] by (intro map_idI) (simp add: unat_of_nat take_bit_nat_eq_self)
  then show ?thesis by (simp add: be_bytes_def comp_def from_base_to_base)
qed

end
