(* ===== verification/BTree_Map.thy ===== *)
theory BTree_Map
  imports Prelude
begin

text \<open>
  The ordered map of the Rust standard library (\<^verbatim>\<open>std::collections::BTreeMap\<close>), as far as
  the proof tree uses it: a list of entries in strictly increasing key order. The locale
  \<^verbatim>\<open>ordered_map\<close> states what a client may rely on in terms of the entry list only; the
  client lemmas about replacing two neighbouring entries by one are proved in it once, and
  the interpretation at the end discharges its laws for the list implementation.
\<close>

section \<open>Operations\<close>

type_synonym ('k, 'v) btree_map = "('k \<times> 'v) list"

definition btree_new :: "('k, 'v) btree_map" where
  "btree_new = []"

fun btree_get :: "'k \<Rightarrow> ('k, 'v) btree_map \<Rightarrow> 'v option" where
  "btree_get k [] = None"
| "btree_get k ((a, v) # m) = (if a = k then Some v else btree_get k m)"

fun btree_put :: "'k::linorder \<Rightarrow> 'v \<Rightarrow> ('k, 'v) btree_map \<Rightarrow> ('k, 'v) btree_map" where
  "btree_put k v [] = [(k, v)]"
| "btree_put k v ((a, u) # m) =
     (if k < a then (k, v) # (a, u) # m
      else if k = a then (k, v) # m
      else (a, u) # btree_put k v m)"

text \<open>\<^verbatim>\<open>insert\<close> returns the value that was stored under the key before.\<close>

definition btree_insert ::
  "'k::linorder \<Rightarrow> 'v \<Rightarrow> ('k, 'v) btree_map \<Rightarrow> 'v option \<times> ('k, 'v) btree_map" where
  "btree_insert k v m = (btree_get k m, btree_put k v m)"

definition btree_remove :: "'k \<Rightarrow> ('k, 'v) btree_map \<Rightarrow> ('k, 'v) btree_map" where
  "btree_remove k m = filter (\<lambda>e. fst e \<noteq> k) m"

text \<open>\<^verbatim>\<open>range(..k).next_back()\<close> and \<^verbatim>\<open>range((Excluded(k), Unbounded)).next()\<close>.\<close>

definition btree_prev :: "'k::linorder \<Rightarrow> ('k, 'v) btree_map \<Rightarrow> ('k \<times> 'v) option" where
  "btree_prev k m = (case filter (\<lambda>e. fst e < k) m of [] \<Rightarrow> None | e # es \<Rightarrow> Some (last (e # es)))"

definition btree_next :: "'k::linorder \<Rightarrow> ('k, 'v) btree_map \<Rightarrow> ('k \<times> 'v) option" where
  "btree_next k m = (case filter (\<lambda>e. k < fst e) m of [] \<Rightarrow> None | e # es \<Rightarrow> Some e)"

text \<open>\<^verbatim>\<open>*m.get_mut(k).unwrap() = v\<close>: overwrites a present key, panics on an absent one.\<close>

definition btree_assign :: "'k::linorder \<Rightarrow> 'v \<Rightarrow> ('k, 'v) btree_map \<Rightarrow> ('k, 'v) btree_map outcome" where
  "btree_assign k v m =
     (case btree_get k m of
        None \<Rightarrow> Panic unwrap_none
      | Some _ \<Rightarrow> Ret (btree_put k v m))"

definition btree_len :: "('k, 'v) btree_map \<Rightarrow> usize" where
  "btree_len m = of_nat (length m)"

definition btree_wf :: "('k::linorder, 'v) btree_map \<Rightarrow> bool" where
  "btree_wf m \<longleftrightarrow> sorted_wrt (<) (map fst m)"

lemma btree_wf_Nil: "btree_wf []"
  by (simp add: btree_wf_def)

lemma btree_wf_Cons: "btree_wf ((a, u) # m) \<longleftrightarrow> (\<forall>e \<in> set m. a < fst e) \<and> btree_wf m"
  by (auto simp: btree_wf_def)

section \<open>The interface a client relies on\<close>

locale ordered_map =
  fixes empty :: "'m"
    and put :: "'k::linorder \<Rightarrow> 'v \<Rightarrow> 'm \<Rightarrow> 'm"
    and remove :: "'k \<Rightarrow> 'm \<Rightarrow> 'm"
    and get :: "'k \<Rightarrow> 'm \<Rightarrow> 'v option"
    and prev :: "'k \<Rightarrow> 'm \<Rightarrow> ('k \<times> 'v) option"
    and succ :: "'k \<Rightarrow> 'm \<Rightarrow> ('k \<times> 'v) option"
    and entries :: "'m \<Rightarrow> ('k \<times> 'v) list"
    and invar :: "'m \<Rightarrow> bool"
  assumes entries_empty: "entries empty = []"
    and invar_empty: "invar empty"
    and invar_put: "invar m \<Longrightarrow> invar (put k v m)"
    and invar_remove: "invar m \<Longrightarrow> invar (remove k m)"
    and get_entries: "invar m \<Longrightarrow> get k m = map_of (entries m) k"
    and keys_sorted: "invar m \<Longrightarrow> sorted_wrt (<) (map fst (entries m))"
    and put_present: "invar m \<Longrightarrow> entries m = xs @ (k, u) # ys \<Longrightarrow> entries (put k v m) = xs @ (k, v) # ys"
    and put_last: "invar m \<Longrightarrow> (\<And>a. a \<in> set (map fst (entries m)) \<Longrightarrow> a < k) \<Longrightarrow>
       entries (put k v m) = entries m @ [(k, v)]"
    and remove_present: "invar m \<Longrightarrow> entries m = xs @ (k, u) # ys \<Longrightarrow> entries (remove k m) = xs @ ys"
    and prev_split: "invar m \<Longrightarrow> entries m = xs @ (k, u) # ys \<Longrightarrow>
       prev k m = (if xs = [] then None else Some (last xs))"
    and succ_split: "invar m \<Longrightarrow> entries m = xs @ (k, u) # ys \<Longrightarrow>
       succ k m = (if ys = [] then None else Some (hd ys))"
begin

text \<open>Replacing an entry and its left (right) neighbour by one entry under the entry's key.\<close>

lemma absorb_prev:
  assumes "invar m" and "entries m = xs @ (j, a) # (k, u) # ys"
  shows "prev k m = Some (j, a)" and "get k (remove j m) = Some u"
    and "entries (put k v (remove j m)) = xs @ (k, v) # ys"
proof -
  have e: "entries m = (xs @ [(j, a)]) @ (k, u) # ys" using assms(2) by simp
  show "prev k m = Some (j, a)" using prev_split [OF assms(1) e] by simp
  have r: "entries (remove j m) = xs @ (k, u) # ys" using remove_present [OF assms] .
  have i: "invar (remove j m)" using assms(1) by (rule invar_remove)
  from keys_sorted [OF i] r have "k \<notin> set (map fst xs)"
    by (auto simp: sorted_wrt_append)
  then have "map_of xs k = None" by (simp add: map_of_eq_None_iff)
  then show "get k (remove j m) = Some u"
    using r get_entries [OF i] by (simp add: map_add_def)
  show "entries (put k v (remove j m)) = xs @ (k, v) # ys" using put_present [OF i r] .
qed

lemma absorb_succ:
  assumes "invar m" and "entries m = xs @ (k, u) # (j, a) # ys"
  shows "succ k m = Some (j, a)" and "get k (remove j m) = Some u"
    and "entries (put k v (remove j m)) = xs @ (k, v) # ys"
proof -
  show "succ k m = Some (j, a)" using succ_split [OF assms] by simp
  have e: "entries m = (xs @ [(k, u)]) @ (j, a) # ys" using assms(2) by simp
  have r: "entries (remove j m) = xs @ (k, u) # ys" using remove_present [OF assms(1) e] by simp
  have i: "invar (remove j m)" using assms(1) by (rule invar_remove)
  from keys_sorted [OF i] r have "k \<notin> set (map fst xs)"
    by (auto simp: sorted_wrt_append)
  then have "map_of xs k = None" by (simp add: map_of_eq_None_iff)
  then show "get k (remove j m) = Some u"
    using r get_entries [OF i] by (simp add: map_add_def)
  show "entries (put k v (remove j m)) = xs @ (k, v) # ys" using put_present [OF i r] .
qed

end

section \<open>The list implementation provides the interface\<close>

lemma btree_get_map_of: "btree_get k m = map_of m k"
  by (induction m) auto

lemma btree_put_keys: "e \<in> set (btree_put k v m) \<Longrightarrow> fst e = k \<or> e \<in> set m"
  by (induction k v m rule: btree_put.induct) (auto split: if_splits)

lemma btree_put_wf: "btree_wf m \<Longrightarrow> btree_wf (btree_put k v m)"
proof (induction k v m rule: btree_put.induct)
  case (1 k v)
  then show ?case by (simp add: btree_wf_Cons btree_wf_Nil)
next
  case (2 k v a u m)
  then show ?case using btree_put_keys [of _ k v m] by (fastforce simp: btree_wf_Cons)
qed

lemma btree_remove_wf: "btree_wf m \<Longrightarrow> btree_wf (btree_remove k m)"
  by (induction m) (auto simp: btree_remove_def btree_wf_Cons btree_wf_Nil)

lemma btree_wf_split:
  assumes "btree_wf (xs @ (k, u) # ys)"
  shows "\<And>e. e \<in> set xs \<Longrightarrow> fst e < k" and "\<And>e. e \<in> set ys \<Longrightarrow> k < fst e"
  using assms by (auto simp: btree_wf_def sorted_wrt_append)

lemma btree_put_present:
  "btree_wf (xs @ (k, u) # ys) \<Longrightarrow> btree_put k v (xs @ (k, u) # ys) = xs @ (k, v) # ys"
proof (induction xs)
  case (Cons e xs)
  obtain a w where e: "e = (a, w)" by (cases e)
  with Cons.prems have "a < k" by (auto simp: btree_wf_Cons)
  with Cons show ?case by (auto simp: e btree_wf_Cons)
qed simp

lemma btree_put_last: "(\<And>a. a \<in> set (map fst m) \<Longrightarrow> a < k) \<Longrightarrow> btree_put k v m = m @ [(k, v)]"
proof (induction m)
  case (Cons e m)
  obtain a w where e: "e = (a, w)" by (cases e)
  with Cons.prems [of a] have "a < k" by simp
  then have "\<not> k < a" and "k \<noteq> a" by auto
  with Cons show ?case by (auto simp: e)
qed simp

lemma btree_remove_present:
  assumes "btree_wf (xs @ (k, u) # ys)"
  shows "btree_remove k (xs @ (k, u) # ys) = xs @ ys"
proof -
  have "filter (\<lambda>e. fst e \<noteq> k) xs = xs" and "filter (\<lambda>e. fst e \<noteq> k) ys = ys"
    using btree_wf_split [OF assms] by (auto simp: filter_id_conv)
  then show ?thesis by (simp add: btree_remove_def)
qed

lemma btree_prev_split:
  assumes "btree_wf (xs @ (k, u) # ys)"
  shows "btree_prev k (xs @ (k, u) # ys) = (if xs = [] then None else Some (last xs))"
proof -
  have "filter (\<lambda>e. fst e < k) xs = xs" and "filter (\<lambda>e. fst e < k) ys = []"
    using btree_wf_split [OF assms]
    by (auto simp: filter_id_conv filter_empty_conv dest: less_asym)
  then show ?thesis by (auto simp: btree_prev_def split: list.splits)
qed

lemma btree_next_split:
  assumes "btree_wf (xs @ (k, u) # ys)"
  shows "btree_next k (xs @ (k, u) # ys) = (if ys = [] then None else Some (hd ys))"
proof -
  have "filter (\<lambda>e. k < fst e) xs = []" and "filter (\<lambda>e. k < fst e) ys = ys"
    using btree_wf_split [OF assms]
    by (auto simp: filter_id_conv filter_empty_conv dest: less_asym)
  then show ?thesis by (auto simp: btree_next_def split: list.splits)
qed

interpretation bt: ordered_map btree_new btree_put btree_remove btree_get btree_prev btree_next
  "\<lambda>m. m" btree_wf
proof unfold_locales
  fix m xs ys :: "('a \<times> 'b) list" and k :: 'a and u v :: 'b
  show "btree_new = ([] :: ('a \<times> 'b) list)" and "btree_wf (btree_new :: ('a \<times> 'b) list)"
    by (simp_all add: btree_new_def btree_wf_Nil)
  show "btree_get k m = map_of m k" by (rule btree_get_map_of)
  assume wf: "btree_wf m"
  show "btree_wf (btree_put k v m)" and "btree_wf (btree_remove k m)"
    and "sorted_wrt (<) (map fst m)"
    using wf by (auto simp: btree_wf_def [symmetric] intro: btree_put_wf btree_remove_wf)
  show "btree_put k v m = m @ [(k, v)]" if "\<And>a. a \<in> set (map fst m) \<Longrightarrow> a < k"
    using that by (rule btree_put_last)
  assume m: "m = xs @ (k, u) # ys"
  show "btree_put k v m = xs @ (k, v) # ys" and "btree_remove k m = xs @ ys"
    and "btree_prev k m = (if xs = [] then None else Some (last xs))"
    and "btree_next k m = (if ys = [] then None else Some (hd ys))"
    using wf unfolding m
    by (rule btree_put_present btree_remove_present btree_prev_split btree_next_split)+
qed

end
