(* ===== verification/Proof_Tree.thy ===== *)
theory Proof_Tree
  imports BTree_Map
begin

text \<open>
  The gateway's proof tree (\<^verbatim>\<open>src/proving/gateway/handler/proof_tree.rs\<close>): one node per run of
  chunks, either being proved or proved and waiting for a neighbour. The theory models
  \<^verbatim>\<open>IndexedProof\<close>, \<^verbatim>\<open>ProofNode\<close> and \<^verbatim>\<open>ProofTree\<close> with every method, states the tiling
  invariant (the nodes' chunk ranges partition the chunks initialised so far, in key order,
  and no two neighbours are both proved) and shows that \<^verbatim>\<open>init_node\<close> and \<^verbatim>\<open>set_proof\<close> keep it,
  that they do not panic on the calls the gateway makes, and what they do on every branch.
\<close>

section \<open>Indexed proofs\<close>

type_synonym ProofIndex = usize

record 'p indexed_proof =
  inner :: 'p
  start_chunk :: usize
  end_chunk :: usize

definition IndexedProof_clone :: "'p indexed_proof \<Rightarrow> 'p indexed_proof" where
  "IndexedProof_clone p = \<lparr>inner = inner p, start_chunk = start_chunk p, end_chunk = end_chunk p\<rparr>"

definition IndexedProof_new :: "'p \<Rightarrow> usize \<Rightarrow> usize \<Rightarrow> 'p indexed_proof" where
  "IndexedProof_new pr s e = \<lparr>inner = pr, start_chunk = s, end_chunk = e\<rparr>"

definition get_inner :: "'p indexed_proof \<Rightarrow> 'p" where
  "get_inner p = inner p"

lemma IndexedProof_clone_eq [simp]: "IndexedProof_clone p = p"
  by (simp add: IndexedProof_clone_def)

lemma IndexedProof_new_simps [simp]:
  "inner (IndexedProof_new pr s e) = pr"
  "start_chunk (IndexedProof_new pr s e) = s"
  "end_chunk (IndexedProof_new pr s e) = e"
  by (simp_all add: IndexedProof_new_def)

section \<open>Nodes\<close>

datatype 'p proof_node =
    InProgress "'p indexed_proof list"
  | Proved "'p indexed_proof"

fun ProofNode_fmt :: "'p proof_node \<Rightarrow> string" where
  "ProofNode_fmt (InProgress _) = ''in-progress''"
| "ProofNode_fmt (Proved _) = ''proved''"

definition ProofNode_init :: "'p proof_node" where
  "ProofNode_init = InProgress []"

fun is_in_progress :: "'p proof_node \<Rightarrow> bool" where
  "is_in_progress (InProgress _) = True"
| "is_in_progress (Proved _) = False"

fun is_proved :: "'p proof_node \<Rightarrow> bool" where
  "is_proved (InProgress _) = False"
| "is_proved (Proved _) = True"

fun ProofNode_proof :: "'p proof_node \<Rightarrow> 'p indexed_proof option" where
  "ProofNode_proof (InProgress _) = None"
| "ProofNode_proof (Proved p) = Some (IndexedProof_clone p)"

section \<open>The tree\<close>

record 'p proof_tree =
  tree :: "(ProofIndex, 'p proof_node) btree_map"

definition ProofTree_default :: "'p proof_tree" where
  "ProofTree_default = \<lparr>tree = btree_new\<rparr>"

definition ProofTree_fmt :: "'p proof_tree \<Rightarrow> string" where
  "ProofTree_fmt t =
     ''=== Start of ProofTree ==='' @ [CHR 0x0A]
     @ concat (map (\<lambda>(i, n). [CHR 0x09] @ usize_to_string i @ '': '' @ ProofNode_fmt n @ [CHR 0x0A]) (tree t))
     @ ''=== End of ProofTree ==='' @ [CHR 0x0A]"

definition ProofTree_len :: "'p proof_tree \<Rightarrow> usize" where
  "ProofTree_len t = btree_len (tree t)"

definition init_node :: "ProofIndex \<Rightarrow> 'p proof_tree \<Rightarrow> 'p proof_tree outcome" where
  "init_node index t =
     (let node = ProofNode_init;
          (old, m) = btree_insert index node (tree t)
      in case old of
           None \<Rightarrow> Ret (t\<lparr>tree := m\<rparr>)
         | Some _ \<Rightarrow> Panic ''proof node must be initialized once in tree'')"

definition prev_pair :: "ProofIndex \<Rightarrow> 'p indexed_proof \<Rightarrow> 'p proof_tree \<Rightarrow> (ProofIndex \<times> 'p indexed_proof list) option" where
  "prev_pair index current t =
     (case btree_prev index (tree t) of
        Some (prev_index, Proved prev_proof) \<Rightarrow>
          Some (prev_index, [IndexedProof_clone prev_proof, IndexedProof_clone current])
      | _ \<Rightarrow> None)"

definition next_pair :: "ProofIndex \<Rightarrow> 'p indexed_proof \<Rightarrow> 'p proof_tree \<Rightarrow> (ProofIndex \<times> 'p indexed_proof list) option" where
  "next_pair index current t =
     (case btree_next index (tree t) of
        Some (next_index, Proved next_proof) \<Rightarrow>
          Some (next_index, [IndexedProof_clone current, IndexedProof_clone next_proof])
      | _ \<Rightarrow> None)"

definition set_proof ::
  "ProofIndex \<Rightarrow> 'p indexed_proof \<Rightarrow> 'p proof_tree \<Rightarrow> ('p proof_tree \<times> 'p indexed_proof list option) outcome" where
  "set_proof index pr t =
     (let current_proof = IndexedProof_clone pr;
          index_proofs = prev_pair index current_proof t;
          index_proofs = (if Option.is_none index_proofs then next_pair index current_proof t else index_proofs);
          (m, node_to_set, proofs_to_combine) =
            (case index_proofs of
               Some (sibling_index, proofs_to_combine) \<Rightarrow>
                 (btree_remove sibling_index (tree t), InProgress proofs_to_combine, Some proofs_to_combine)
             | None \<Rightarrow> (tree t, Proved current_proof, None))
      in bind_outcome (btree_assign index node_to_set m)
           (\<lambda>m'. Ret (t\<lparr>tree := m'\<rparr>, proofs_to_combine)))"

section \<open>Ranges, tiling and open nodes\<close>

text \<open>The chunks a node stands for: its own index before conversion, then what its proofs cover.\<close>

fun node_range :: "ProofIndex \<times> 'p proof_node \<Rightarrow> usize \<times> usize" where
  "node_range (k, InProgress []) = (k, k)"
| "node_range (k, InProgress (p # ps)) = (start_chunk p, end_chunk (last (p # ps)))"
| "node_range (k, Proved p) = (start_chunk p, end_chunk p)"

definition adjacent :: "'p indexed_proof \<Rightarrow> 'p indexed_proof \<Rightarrow> bool" where
  "adjacent a b \<longleftrightarrow> unat (start_chunk b) = Suc (unat (end_chunk a))"

text \<open>A node in progress waits for a conversion, or for the combination of two adjacent proofs.\<close>

fun node_ok :: "'p proof_node \<Rightarrow> bool" where
  "node_ok (InProgress []) = True"
| "node_ok (InProgress [a, b]) = adjacent a b"
| "node_ok (InProgress _) = False"
| "node_ok (Proved p) = True"

text \<open>\<open>tiles lo es hi\<close>: in key order the ranges of \<open>es\<close> are adjacent, start at \<open>lo\<close>, end before \<open>hi\<close>.\<close>

fun tiles :: "nat \<Rightarrow> (ProofIndex \<times> 'p proof_node) list \<Rightarrow> nat \<Rightarrow> bool" where
  "tiles lo [] hi \<longleftrightarrow> lo = hi"
| "tiles lo (e # es) hi \<longleftrightarrow>
     unat (fst (node_range e)) = lo \<and> fst (node_range e) \<le> fst e \<and> fst e \<le> snd (node_range e) \<and>
     tiles (Suc (unat (snd (node_range e)))) es hi"

definition no_proved_neighbours :: "(ProofIndex \<times> 'p proof_node) list \<Rightarrow> bool" where
  "no_proved_neighbours es \<longleftrightarrow> successively (\<lambda>x y. \<not> (is_proved (snd x) \<and> is_proved (snd y))) es"

definition tree_inv :: "'p proof_tree \<Rightarrow> nat \<Rightarrow> bool" where
  "tree_inv t m \<longleftrightarrow> btree_wf (tree t) \<and> tiles 0 (tree t) m \<and> (\<forall>e \<in> set (tree t). node_ok (snd e)) \<and>
     no_proved_neighbours (tree t)"

text \<open>A flight is a node in progress: its key and the chunks whose proof it waits for.\<close>

type_synonym flight = "ProofIndex \<times> usize \<times> usize"

definition open_nodes :: "'p proof_tree \<Rightarrow> flight multiset" where
  "open_nodes t = mset (map (\<lambda>e. (fst e, node_range e)) (filter (\<lambda>e. is_in_progress (snd e)) (tree t)))"

definition tree_proofs :: "'p proof_tree \<Rightarrow> 'p indexed_proof set" where
  "tree_proofs t = (\<Union>e \<in> set (tree t). case snd e of InProgress ps \<Rightarrow> set ps | Proved p \<Rightarrow> {p})"


section \<open>What the operations do\<close>

lemma set_proof_prev:
  assumes "btree_wf (tree t)" and "tree t = xs @ (j, Proved a) # (k, n) # ys"
  shows "set_proof k p t = Ret (t\<lparr>tree := xs @ (k, InProgress [a, p]) # ys\<rparr>, Some [a, p])"
  using bt.absorb_prev [OF assms]
  by (simp add: set_proof_def prev_pair_def btree_assign_def Option.is_none_def)

lemma prev_pair_None:
  assumes "btree_wf (tree t)" and "tree t = xs @ (k, n) # ys"
    and "xs = [] \<or> \<not> is_proved (snd (last xs))"
  shows "prev_pair k p t = None"
  using bt.prev_split [OF assms(1,2)] assms(3)
  by (auto simp: prev_pair_def split: prod.splits proof_node.splits)

lemma set_proof_next:
  assumes "btree_wf (tree t)" and "tree t = xs @ (k, n) # (j, Proved b) # ys"
    and "xs = [] \<or> \<not> is_proved (snd (last xs))"
  shows "set_proof k p t = Ret (t\<lparr>tree := xs @ (k, InProgress [p, b]) # ys\<rparr>, Some [p, b])"
  using bt.absorb_succ [OF assms(1,2)] prev_pair_None [OF assms]
  by (simp add: set_proof_def next_pair_def btree_assign_def)

lemma set_proof_alone:
  assumes "btree_wf (tree t)" and "tree t = xs @ (k, n) # ys"
    and "xs = [] \<or> \<not> is_proved (snd (last xs))"
    and "ys = [] \<or> \<not> is_proved (snd (hd ys))"
  shows "set_proof k p t = Ret (t\<lparr>tree := xs @ (k, Proved p) # ys\<rparr>, None)"
proof -
  have n: "next_pair k p t = None"
    using bt.succ_split [OF assms(1,2)] assms(4)
    by (auto simp: next_pair_def split: prod.splits proof_node.splits)
  have "btree_get k (tree t) \<noteq> None"
    using assms(2) by (simp add: btree_get_map_of map_of_eq_None_iff)
  then show ?thesis
    using n prev_pair_None [OF assms(1-3)] bt.put_present [OF assms(1,2)]
    by (auto simp: set_proof_def btree_assign_def)
qed

lemma set_proof_cases:
  assumes "btree_wf (tree t)" and "tree t = xs @ (k, n) # ys"
  obtains (Prev) zs j a where "xs = zs @ [(j, Proved a)]"
    "set_proof k p t = Ret (t\<lparr>tree := zs @ (k, InProgress [a, p]) # ys\<rparr>, Some [a, p])"
  | (Next) zs j b where "xs = [] \<or> \<not> is_proved (snd (last xs))" "ys = (j, Proved b) # zs"
    "set_proof k p t = Ret (t\<lparr>tree := xs @ (k, InProgress [p, b]) # zs\<rparr>, Some [p, b])"
  | (Alone) "xs = [] \<or> \<not> is_proved (snd (last xs))" "ys = [] \<or> \<not> is_proved (snd (hd ys))"
    "set_proof k p t = Ret (t\<lparr>tree := xs @ (k, Proved p) # ys\<rparr>, None)"
proof (cases "xs = [] \<or> \<not> is_proved (snd (last xs))")
  case True
  note left = this
  show ?thesis
  proof (cases "ys = [] \<or> \<not> is_proved (snd (hd ys))")
    case True
    with set_proof_alone [OF assms left] left show ?thesis by (intro Alone)
  next
    case False
    then obtain j b zs where "ys = (j, Proved b) # zs"
      by (cases ys; cases "snd (hd ys)") (auto simp: prod_eq_iff)
    with set_proof_next [OF assms(1) _ left] assms(2) left show ?thesis by (intro Next) auto
  qed
next
  case False
  then obtain j a zs where "xs = zs @ [(j, Proved a)]"
    by (cases xs rule: rev_cases; cases "snd (last xs)") (auto simp: prod_eq_iff)
  with set_proof_prev [OF assms(1)] assms(2) show ?thesis by (intro Prev) auto
qed

lemma set_proof_missing:
  assumes "btree_get k (tree t) = None"
  shows "\<exists>m. set_proof k p t = Panic m"
proof -
  have "btree_get k (btree_remove j (tree t)) = None" for j
    using assms by (auto simp: btree_get_map_of map_of_eq_None_iff btree_remove_def)
  with assms show ?thesis
    by (auto simp: set_proof_def btree_assign_def Let_def split: option.splits prod.splits)
qed

section \<open>The tiling invariant\<close>

lemma tiles_append: "tiles lo (xs @ ys) hi \<longleftrightarrow> (\<exists>mid. tiles lo xs mid \<and> tiles mid ys hi)"
  by (induction xs arbitrary: lo) auto

lemma tiles_bound: "tiles lo es hi \<Longrightarrow> lo \<le> hi \<and> (\<forall>e \<in> set es. unat (fst e) < hi)"
proof (induction es arbitrary: lo)
  case (Cons e es)
  from Cons.prems have "tiles (Suc (unat (snd (node_range e)))) es hi" by simp
  then have IH: "Suc (unat (snd (node_range e))) \<le> hi \<and> (\<forall>e \<in> set es. unat (fst e) < hi)"
    by (rule Cons.IH)
  from Cons.prems have "lo \<le> unat (fst e)" and "unat (fst e) \<le> unat (snd (node_range e))"
    by (auto simp: word_le_nat_alt)
  with IH show ?case by auto
qed simp

lemma neighbours_Nil: "no_proved_neighbours []"
  by (simp add: no_proved_neighbours_def)

lemma neighbours_append:
  "no_proved_neighbours (xs @ ys) \<longleftrightarrow> no_proved_neighbours xs \<and> no_proved_neighbours ys \<and>
     (xs \<noteq> [] \<longrightarrow> ys \<noteq> [] \<longrightarrow> \<not> (is_proved (snd (last xs)) \<and> is_proved (snd (hd ys))))"
  by (auto simp: no_proved_neighbours_def successively_append_iff)

lemma neighbours_Cons:
  "no_proved_neighbours (e # ys) \<longleftrightarrow> no_proved_neighbours ys \<and>
     (ys \<noteq> [] \<longrightarrow> \<not> (is_proved (snd e) \<and> is_proved (snd (hd ys))))"
  by (cases ys) (auto simp: no_proved_neighbours_def)

lemma is_in_progress_not_proved [simp]: "is_in_progress n \<longleftrightarrow> \<not> is_proved n"
  by (cases n) auto

lemma open_node_entry:
  assumes "(k, r) \<in># open_nodes t"
  obtains xs n ys where "tree t = xs @ (k, n) # ys" "\<not> is_proved n" "node_range (k, n) = r"
proof -
  from assms obtain n where "(k, n) \<in> set (tree t)" "\<not> is_proved n" "node_range (k, n) = r"
    by (auto simp: open_nodes_def)
  with that show ?thesis by (metis split_list)
qed

lemma wf_remove_entry: "btree_wf (xs @ e # ys) \<Longrightarrow> btree_wf (xs @ ys)"
  by (auto simp: btree_wf_def sorted_wrt_append)

lemma wf_change_node: "btree_wf (xs @ (k, n) # ys) \<Longrightarrow> btree_wf (xs @ (k, n') # ys)"
  by (simp add: btree_wf_def)


lemma init_node_new:
  assumes inv: "tree_inv t m" and m: "m < 2 ^ 64"
  shows "init_node (of_nat m) t = Ret (t\<lparr>tree := tree t @ [(of_nat m, InProgress [])]\<rparr>)"
proof -
  have below: "a < (of_nat m :: usize)" if "a \<in> set (map fst (tree t))" for a
    using that inv m tiles_bound [of 0 "tree t" m] by (auto simp: tree_inv_def word_less_nat_alt)
  have wf: "btree_wf (tree t)" using inv by (simp add: tree_inv_def)
  have "btree_get (of_nat m) (tree t) = None"
    using below by (auto simp: btree_get_map_of map_of_eq_None_iff)
  with bt.put_last [OF wf below] show ?thesis
    by (simp add: init_node_def btree_insert_def ProofNode_init_def)
qed

lemma tree_inv_snoc:
  assumes "tree_inv t m" and "m < 2 ^ 64"
  shows "tree_inv (t\<lparr>tree := tree t @ [(of_nat m, InProgress [])]\<rparr>) (Suc m)"
proof -
  have "fst e < (of_nat m :: usize)" if "e \<in> set (tree t)" for e
    using that assms tiles_bound [of 0 "tree t" m] by (auto simp: tree_inv_def word_less_nat_alt)
  then have "btree_wf (tree t @ [(of_nat m, InProgress [])])"
    using assms(1) by (auto simp: tree_inv_def btree_wf_def sorted_wrt_append)
  with assms show ?thesis
    by (auto simp: tree_inv_def tiles_append neighbours_append neighbours_Cons neighbours_Nil)
qed

lemma init_node_open:
  "open_nodes (t\<lparr>tree := tree t @ [(k, InProgress [])]\<rparr>) = add_mset (k, k, k) (open_nodes t)"
  by (simp add: open_nodes_def)

lemma merge_left_inv:
  assumes inv: "tree_inv t m" and t: "tree t = zs @ (j, Proved a) # (k, n) # ys"
    and open_: "\<not> is_proved n" and r: "node_range (k, n) = (start_chunk p, end_chunk p)"
  shows "tree_inv (t\<lparr>tree := zs @ (k, InProgress [a, p]) # ys\<rparr>) m" and "adjacent a p"
proof -
  from inv t obtain mid where mid: "tiles 0 zs mid"
    and tl: "tiles mid ((j, Proved a) # (k, n) # ys) m"
    by (auto simp: tree_inv_def tiles_append)
  from tl r show adj: "adjacent a p" by (auto simp: adjacent_def)
  from tl r have "start_chunk a \<le> k" by (auto simp: word_le_nat_alt)
  with tl r have "tiles mid ((k, InProgress [a, p]) # ys) m" by auto
  moreover have "btree_wf (zs @ (k, InProgress [a, p]) # ys)"
    using inv t wf_remove_entry [of zs "(j, Proved a)" "(k, n) # ys"]
    by (auto simp: tree_inv_def intro: wf_change_node)
  ultimately show "tree_inv (t\<lparr>tree := zs @ (k, InProgress [a, p]) # ys\<rparr>) m"
    using inv t mid adj by (auto simp: tree_inv_def tiles_append neighbours_append neighbours_Cons)
qed

lemma merge_right_inv:
  assumes inv: "tree_inv t m" and t: "tree t = xs @ (k, n) # (j, Proved b) # zs"
    and open_: "\<not> is_proved n" and r: "node_range (k, n) = (start_chunk p, end_chunk p)"
  shows "tree_inv (t\<lparr>tree := xs @ (k, InProgress [p, b]) # zs\<rparr>) m" and "adjacent p b"
proof -
  from inv t obtain mid where mid: "tiles 0 xs mid"
    and tl: "tiles mid ((k, n) # (j, Proved b) # zs) m"
    by (auto simp: tree_inv_def tiles_append)
  from tl r show adj: "adjacent p b" by (auto simp: adjacent_def)
  from tl r have "k \<le> end_chunk b" by (auto simp: word_le_nat_alt)
  with tl r have "tiles mid ((k, InProgress [p, b]) # zs) m" by auto
  moreover have "btree_wf (xs @ (k, InProgress [p, b]) # zs)"
    using inv t wf_remove_entry [of "xs @ [(k, n)]" "(j, Proved b)" zs]
    by (auto simp: tree_inv_def intro: wf_change_node)
  ultimately show "tree_inv (t\<lparr>tree := xs @ (k, InProgress [p, b]) # zs\<rparr>) m"
    using inv t mid adj by (auto simp: tree_inv_def tiles_append neighbours_append neighbours_Cons)
qed

lemma settle_inv:
  assumes inv: "tree_inv t m" and t: "tree t = xs @ (k, n) # ys"
    and left: "xs = [] \<or> \<not> is_proved (snd (last xs))" and right: "ys = [] \<or> \<not> is_proved (snd (hd ys))"
    and r: "node_range (k, n) = (start_chunk p, end_chunk p)"
  shows "tree_inv (t\<lparr>tree := xs @ (k, Proved p) # ys\<rparr>) m"
proof -
  from inv t r have "tiles 0 (xs @ (k, Proved p) # ys) m"
    by (auto simp: tree_inv_def tiles_append)
  moreover have "btree_wf (xs @ (k, Proved p) # ys)"
    using inv t by (auto simp: tree_inv_def intro: wf_change_node)
  ultimately show ?thesis
    using inv t left right by (auto simp: tree_inv_def neighbours_append neighbours_Cons)
qed


section \<open>The ledger of tasks under way\<close>

text \<open>
  What the gateway relies on. A ledger knows the chunks registered so far and the flights,
  the tasks whose result is awaited. Registering the next chunk opens one flight; reporting
  the result of a flight closes it, or replaces it by a flight for the union of two
  adjacent results and consumes one node.
\<close>

locale task_ledger =
  fixes inv :: "'s \<Rightarrow> nat \<Rightarrow> bool"
    and flights :: "'s \<Rightarrow> flight multiset"
    and proofs_in :: "'s \<Rightarrow> 'p indexed_proof set"
    and nodes :: "'s \<Rightarrow> nat"
    and register :: "usize \<Rightarrow> 's \<Rightarrow> 's outcome"
    and report :: "usize \<Rightarrow> 'p indexed_proof \<Rightarrow> 's \<Rightarrow> ('s \<times> 'p indexed_proof list option) outcome"
  assumes register_next: "inv s m \<Longrightarrow> m < 2 ^ 64 \<Longrightarrow>
      \<exists>s'. register (of_nat m) s = Ret s' \<and> inv s' (Suc m) \<and>
        flights s' = add_mset (of_nat m, of_nat m, of_nat m) (flights s) \<and>
        proofs_in s' = proofs_in s \<and> nodes s' = Suc (nodes s)"
    and report_flight: "inv s m \<Longrightarrow> (k, start_chunk p, end_chunk p) \<in># flights s \<Longrightarrow>
      \<exists>s' r. report k p s = Ret (s', r) \<and> inv s' m \<and> proofs_in s' \<subseteq> insert p (proofs_in s) \<and>
        (r = None \<and> nodes s' = nodes s \<and>
           flights s = add_mset (k, start_chunk p, end_chunk p) (flights s')
         \<or> (\<exists>a b F. r = Some [a, b] \<and> adjacent a b \<and> Suc (nodes s') = nodes s \<and>
             {a, b} \<subseteq> insert p (proofs_in s) \<and>
             flights s = add_mset (k, start_chunk p, end_chunk p) F \<and>
             flights s' = add_mset (k, start_chunk a, end_chunk b) F))"
begin

end

lemma set_proof_ledger:
  assumes inv: "tree_inv t m" and fl: "(k, start_chunk p, end_chunk p) \<in># open_nodes t"
  shows "\<exists>t' r. set_proof k p t = Ret (t', r) \<and> tree_inv t' m \<and> tree_proofs t' \<subseteq> insert p (tree_proofs t) \<and>
      (r = None \<and> length (tree t') = length (tree t) \<and>
         open_nodes t = add_mset (k, start_chunk p, end_chunk p) (open_nodes t')
       \<or> (\<exists>a b F. r = Some [a, b] \<and> adjacent a b \<and> Suc (length (tree t')) = length (tree t) \<and>
           {a, b} \<subseteq> insert p (tree_proofs t) \<and>
           open_nodes t = add_mset (k, start_chunk p, end_chunk p) F \<and>
           open_nodes t' = add_mset (k, start_chunk a, end_chunk b) F))"
proof -
  from fl obtain xs n ys where t: "tree t = xs @ (k, n) # ys" and n: "\<not> is_proved n"
    and r: "node_range (k, n) = (start_chunk p, end_chunk p)"
    by (elim open_node_entry) auto
  have wf: "btree_wf (tree t)" using inv by (simp add: tree_inv_def)
  from wf t show ?thesis
  proof (cases rule: set_proof_cases [where p = p])
    case (Prev zs j a)
    have t': "tree t = zs @ (j, Proved a) # (k, n) # ys" using t Prev(1) by simp
    show ?thesis using Prev merge_left_inv [OF inv t' n r] t' n r
      by (auto simp: open_nodes_def tree_proofs_def)
  next
    case (Next zs j b)
    have t': "tree t = xs @ (k, n) # (j, Proved b) # zs" using t Next(2) by simp
    show ?thesis using Next merge_right_inv [OF inv t' n r] t' n r
      by (auto simp: open_nodes_def tree_proofs_def)
  next
    case Alone
    show ?thesis using Alone settle_inv [OF inv t Alone(1,2) r] t n r
      by (auto simp: open_nodes_def tree_proofs_def)
  qed
qed

interpretation pt: task_ledger tree_inv open_nodes tree_proofs "\<lambda>t. length (tree t)" init_node set_proof
proof unfold_locales
  fix t :: "'p proof_tree" and m :: nat and k :: usize and p :: "'p indexed_proof"
  assume inv: "tree_inv t m"
  show "\<exists>t'. init_node (of_nat m) t = Ret t' \<and> tree_inv t' (Suc m) \<and>
      open_nodes t' = add_mset (of_nat m, of_nat m, of_nat m) (open_nodes t) \<and>
      tree_proofs t' = tree_proofs t \<and> length (tree t') = Suc (length (tree t))" if "m < 2 ^ 64"
    using init_node_new [OF inv that] tree_inv_snoc [OF inv that] init_node_open
    by (auto simp: tree_proofs_def)
qed (rule set_proof_ledger)

section \<open>Properties\<close>

text \<open>A small tree: chunk 0 is proved, chunk 1 is being converted.\<close>

definition demo_tree :: "nat proof_tree" where
  "demo_tree = \<lparr>tree = [(0, Proved \<lparr>inner = 7, start_chunk = 0, end_chunk = 0\<rparr>), (1, InProgress [])]\<rparr>"

lemma demo_tree_inv: "tree_inv demo_tree 2" and demo_tree_open: "open_nodes demo_tree = {#(1, 1, 1)#}"
  by (simp_all add: demo_tree_def tree_inv_def open_nodes_def btree_wf_def no_proved_neighbours_def)

text \<open>
  C16. Recording the proof of a node in progress never panics and keeps the tree tiling the
  registered chunks. Either the node becomes proved, and exactly its task is no longer under
  way; or the node merges with a proved neighbour, one node disappears, and exactly its task
  is replaced by the combination of two adjacent proofs that are in the tree.
\<close>

theorem set_proof_correct:
  assumes "tree_inv t m" and "(k, start_chunk p, end_chunk p) \<in># open_nodes t"
  shows "\<exists>t' r. set_proof k p t = Ret (t', r) \<and> tree_inv t' m \<and> tree_proofs t' \<subseteq> insert p (tree_proofs t) \<and>
      (r = None \<and> length (tree t') = length (tree t) \<and>
         open_nodes t = add_mset (k, start_chunk p, end_chunk p) (open_nodes t')
       \<or> (\<exists>a b F. r = Some [a, b] \<and> adjacent a b \<and> Suc (length (tree t')) = length (tree t) \<and>
           {a, b} \<subseteq> insert p (tree_proofs t) \<and>
           open_nodes t = add_mset (k, start_chunk p, end_chunk p) F \<and>
           open_nodes t' = add_mset (k, start_chunk a, end_chunk b) F))"
  using assms by (rule pt.report_flight)

theorem set_proof_correct_witness:
  "\<exists>t' r. set_proof 1 \<lparr>inner = 8, start_chunk = 1, end_chunk = 1\<rparr> demo_tree = Ret (t', r) \<and> tree_inv t' 2"
  using set_proof_correct [OF demo_tree_inv, of 1 "\<lparr>inner = 8, start_chunk = 1, end_chunk = 1\<rparr>"]
  by (auto simp: demo_tree_open)

text \<open>
  C17. Registering the next chunk never panics: it adds one node, in progress, for exactly that
  chunk, and the tree tiles one chunk more.
\<close>

theorem init_node_correct:
  assumes "tree_inv t m" and "m < 2 ^ 64"
  shows "\<exists>t'. init_node (of_nat m) t = Ret t' \<and> tree_inv t' (Suc m) \<and>
    open_nodes t' = add_mset (of_nat m, of_nat m, of_nat m) (open_nodes t) \<and>
    tree_proofs t' = tree_proofs t \<and> length (tree t') = Suc (length (tree t))"
  using assms by (rule pt.register_next)

theorem init_node_correct_witness:
  "\<exists>t'. init_node 2 demo_tree = Ret t' \<and> tree_inv t' 3 \<and> open_nodes t' = {#(1, 1, 1), (2, 2, 2)#}"
  using init_node_correct [OF demo_tree_inv] by (auto simp: demo_tree_open numeral_3_eq_3 add_mset_commute)

end
