(* ===== verification/Messages.thy ===== *)
theory Messages
  imports Proof_Tree
begin

text \<open>
  The messages exchanged by emulator, gateway and provers (\<^verbatim>\<open>src/proving/messages/\<close>), with
  the proof types of pico-vm as type variables: \<open>'r\<close> an emulation record, \<open>'p\<close> a
  recursion proof (\<^verbatim>\<open>MetaProof<SC>\<close>), \<open>'e\<close> an embed proof (\<^verbatim>\<open>MetaProof<EmbedSC>\<close>).
  Every task message carries a flight: the key of its tree node and the chunks it is about.
\<close>

section \<open>Requests and responses\<close>

record 'r riscv_request =
  rreq_chunk_index :: usize
  rreq_record :: 'r

record 'p riscv_response =
  rres_chunk_index :: usize
  rres_proof :: "'p indexed_proof"

datatype ('r, 'p) riscv_msg =
    RiscvRequest "'r riscv_request"
  | RiscvResponse "'p riscv_response"

record 'p combine_request =
  flag_complete :: bool
  creq_chunk_index :: usize
  creq_proofs :: "'p indexed_proof list"

record 'p combine_response =
  cres_chunk_index :: usize
  cres_proof :: "'p indexed_proof"

datatype 'p combine_msg =
    CombineRequest "'p combine_request"
  | CombineResponse "'p combine_response"

record 'p compress_request =
  zreq_chunk_index :: usize
  zreq_proof :: "'p indexed_proof"

record 'p compress_response =
  zres_chunk_index :: usize
  zres_proof :: "'p indexed_proof"

record 'p embed_request =
  ereq_chunk_index :: usize
  ereq_proof :: "'p indexed_proof"

record 'e embed_response =
  eres_chunk_index :: usize
  eres_proof :: "'e indexed_proof"

section \<open>Gateway messages\<close>

type_synonym IpAddr = string
type_synonym TaskId = string

datatype ('r, 'p, 'e) gateway_msg =
    EmulatorComplete
  | RequestTask
  | Riscv "('r, 'p) riscv_msg" TaskId IpAddr
  | Combine "'p combine_msg" TaskId IpAddr
  | Embed 'e
  | Close IpAddr
  | Exit

fun ip_addr :: "('r, 'p, 'e) gateway_msg \<Rightarrow> IpAddr" where
  "ip_addr EmulatorComplete = ''''"
| "ip_addr RequestTask = ''''"
| "ip_addr Exit = ''''"
| "ip_addr (Embed _) = ''''"
| "ip_addr (Riscv _ _ ip) = ip"
| "ip_addr (Combine _ _ ip) = ip"
| "ip_addr (Close ip) = ip"

section \<open>Flights of messages\<close>

text \<open>The chunks a combine request is about: those of its first and of its last proof.\<close>

fun creq_flight :: "'p combine_request \<Rightarrow> flight multiset" where
  "creq_flight q = (case creq_proofs q of
       [] \<Rightarrow> {#}
     | p # ps \<Rightarrow> {#(creq_chunk_index q, start_chunk p, end_chunk (last (p # ps)))#})"

fun msg_flight :: "('r, 'p, 'e) gateway_msg \<Rightarrow> flight multiset" where
  "msg_flight (Riscv (RiscvRequest q) _ _) = {#(rreq_chunk_index q, rreq_chunk_index q, rreq_chunk_index q)#}"
| "msg_flight (Riscv (RiscvResponse r) _ _) =
     {#(rres_chunk_index r, start_chunk (rres_proof r), end_chunk (rres_proof r))#}"
| "msg_flight (Combine (CombineRequest q) _ _) = creq_flight q"
| "msg_flight (Combine (CombineResponse r) _ _) =
     {#(cres_chunk_index r, start_chunk (cres_proof r), end_chunk (cres_proof r))#}"
| "msg_flight _ = {#}"

fun msg_proofs :: "('r, 'p, 'e) gateway_msg \<Rightarrow> 'p indexed_proof set" where
  "msg_proofs (Riscv (RiscvResponse r) _ _) = {rres_proof r}"
| "msg_proofs (Combine (CombineRequest q) _ _) = set (creq_proofs q)"
| "msg_proofs (Combine (CombineResponse r) _ _) = {cres_proof r}"
| "msg_proofs _ = {}"

text \<open>The tasks a gateway hands to provers and the messages provers send back.\<close>

fun is_task :: "('r, 'p, 'e) gateway_msg \<Rightarrow> bool" where
  "is_task (Riscv (RiscvRequest _) _ _) = True"
| "is_task (Combine (CombineRequest q) _ _) = (\<exists>a b. creq_proofs q = [a, b] \<and> adjacent a b)"
| "is_task _ = False"

fun is_report :: "('r, 'p, 'e) gateway_msg \<Rightarrow> bool" where
  "is_report RequestTask = True"
| "is_report (Riscv (RiscvResponse _) _ _) = True"
| "is_report (Combine (CombineResponse _) _ _) = True"
| "is_report (Embed _) = True"
| "is_report Exit = True"
| "is_report _ = False"

end
