(* ===== verification/Gateway_Handler.thy ===== *)
theory Gateway_Handler
  imports Messages
begin

text \<open>
  The gateway's message handler (\<^verbatim>\<open>src/proving/gateway/handler/mod.rs\<close>): the state it keeps,
  and the processing of emulator messages and prover results. Both handlers return
  \<^verbatim>\<open>Ok\<close> on every path that does not panic, so the result is the new state and the
  optional follow-up message. The log line of \<^verbatim>\<open>set_embed_proof\<close> serialises the proof to print
  its size; that has no effect on the state and is left out.
\<close>

record ('p, 'e) gateway_handler =
  emulator_complete :: bool
  proof_tree :: "'p proof_tree"
  embed_proof :: "'e option"

definition GatewayHandler_new :: "('p, 'e) gateway_handler" where
  "GatewayHandler_new = \<lparr>emulator_complete = False, proof_tree = ProofTree_default, embed_proof = None\<rparr>"

definition complete :: "('p, 'e) gateway_handler \<Rightarrow> bool" where
  "complete h \<longleftrightarrow> \<not> Option.is_none (embed_proof h)"

definition get_embed_proof :: "('p, 'e) gateway_handler \<Rightarrow> 'e option" where
  "get_embed_proof h = embed_proof h"

definition set_embed_proof :: "'e \<Rightarrow> ('p, 'e) gateway_handler \<Rightarrow> ('p, 'e) gateway_handler" where
  "set_embed_proof pr h = h\<lparr>embed_proof := Some pr\<rparr>"

fun process_riscv_req ::
  "('r, 'p, 'e) gateway_msg \<Rightarrow> ('p, 'e) gateway_handler \<Rightarrow>
     (('p, 'e) gateway_handler \<times> ('r, 'p, 'e) gateway_msg option) outcome" where
  "process_riscv_req (Riscv (RiscvRequest q) _ _) h =
     bind_outcome (init_node (rreq_chunk_index q) (proof_tree h)) (\<lambda>t. Ret (h\<lparr>proof_tree := t\<rparr>, None))"
| "process_riscv_req (Riscv (RiscvResponse r) _ _) h = Panic ''unexpected message in process_riscv_req''"
| "process_riscv_req _ h = Panic ''unsupported''"

text \<open>\<^verbatim>\<open>self.proof_tree.set_proof(chunk_index, proof).map(|proofs| (chunk_index, proofs))\<close>\<close>

definition record_proof ::
  "usize \<Rightarrow> 'p indexed_proof \<Rightarrow> ('p, 'e) gateway_handler \<Rightarrow>
     (('p, 'e) gateway_handler \<times> (usize \<times> 'p indexed_proof list) option) outcome" where
  "record_proof chunk_index pr h =
     bind_outcome (set_proof chunk_index pr (proof_tree h))
       (\<lambda>(t, ps). Ret (h\<lparr>proof_tree := t\<rparr>, map_option (\<lambda>proofs. (chunk_index, proofs)) ps))"

text \<open>The \<^verbatim>\<open>match\<close> of \<^verbatim>\<open>process\<close>: the new state and the proofs to combine.\<close>

fun process_match ::
  "('r, 'p, 'e) gateway_msg \<Rightarrow> ('p, 'e) gateway_handler \<Rightarrow>
     (('p, 'e) gateway_handler \<times> (usize \<times> 'p indexed_proof list) option) outcome" where
  "process_match EmulatorComplete h = Ret (h\<lparr>emulator_complete := True\<rparr>, None)"
| "process_match (Riscv (RiscvRequest q) _ _) h =
     bind_outcome (init_node (rreq_chunk_index q) (proof_tree h)) (\<lambda>t. Ret (h\<lparr>proof_tree := t\<rparr>, None))"
| "process_match (Riscv (RiscvResponse r) _ _) h = record_proof (rres_chunk_index r) (rres_proof r) h"
| "process_match (Combine (CombineResponse r) _ _) h = record_proof (cres_chunk_index r) (cres_proof r) h"
| "process_match (Embed pr) h = Ret (set_embed_proof pr h, None)"
| "process_match _ h = Panic ''unsupported''"

definition process ::
  "('r, 'p, 'e) gateway_msg \<Rightarrow> ('p, 'e) gateway_handler \<Rightarrow>
     (('p, 'e) gateway_handler \<times> ('r, 'p, 'e) gateway_msg option) outcome" where
  "process msg h =
     bind_outcome (process_match msg h) (\<lambda>(h', index_proofs_to_combine).
       if complete h' then Ret (h', Some Exit)
       else case index_proofs_to_combine of
         Some (chunk_index, proofs) \<Rightarrow>
           if length proofs = 2
           then Ret (h', Some (Combine (CombineRequest
                  \<lparr>flag_complete = (ProofTree_len (proof_tree h') = 1),
                   creq_chunk_index = chunk_index, creq_proofs = proofs\<rparr>)
                  (usize_to_string chunk_index) ''''))
           else Panic ''assertion `left == right` failed''
       | None \<Rightarrow> Ret (h', None))"

section \<open>Handler states and their bookkeeping\<close>

abbreviation handler_inv :: "('p, 'e) gateway_handler \<Rightarrow> nat \<Rightarrow> bool" where
  "handler_inv h m \<equiv> tree_inv (proof_tree h) m"

abbreviation handler_flights :: "('p, 'e) gateway_handler \<Rightarrow> flight multiset" where
  "handler_flights h \<equiv> open_nodes (proof_tree h)"

abbreviation handler_nodes :: "('p, 'e) gateway_handler \<Rightarrow> nat" where
  "handler_nodes h \<equiv> length (tree (proof_tree h))"

lemma complete_iff: "complete h \<longleftrightarrow> (\<exists>e. embed_proof h = Some e)"
  by (auto simp: complete_def Option.is_none_def split: option.splits)

text \<open>The number of nodes stays below the width of \<^verbatim>\<open>usize\<close>, so \<^verbatim>\<open>len() == 1\<close> is exact.\<close>

lemma tiles_length: "tiles lo es hi \<Longrightarrow> lo + length es \<le> hi"
proof (induction es arbitrary: lo)
  case (Cons e es)
  from Cons.prems have "tiles (Suc (unat (snd (node_range e)))) es hi" by simp
  then have "Suc (unat (snd (node_range e))) + length es \<le> hi" by (rule Cons.IH)
  with Cons.prems show ?case by (auto simp: word_le_nat_alt)
qed simp

lemma ProofTree_len_one:
  assumes "tree_inv t m" and "m < 2 ^ 64"
  shows "ProofTree_len t = 1 \<longleftrightarrow> length (tree t) = 1"
proof -
  have b: "length (tree t) < 2 ^ 64"
    using assms tiles_length [of 0 "tree t" m] by (auto simp: tree_inv_def)
  have "(of_nat (length (tree t)) :: usize) = of_nat 1 \<longleftrightarrow> length (tree t) = 1"
  proof
    assume "(of_nat (length (tree t)) :: usize) = of_nat 1"
    then have "unat (of_nat (length (tree t)) :: usize) = unat (of_nat 1 :: usize)" by simp
    with b show "length (tree t) = 1" by simp
  qed simp
  then show ?thesis by (simp add: ProofTree_len_def btree_len_def)
qed

lemma process_riscv_req_new:
  assumes "handler_inv h m" and "m < 2 ^ 64" and "rreq_chunk_index q = of_nat m"
  shows "\<exists>h'. process_riscv_req (Riscv (RiscvRequest q) tid ip) h = Ret (h', None) \<and>
    handler_inv h' (Suc m) \<and> handler_flights h' = add_mset (of_nat m, of_nat m, of_nat m) (handler_flights h) \<and>
    tree_proofs (proof_tree h') = tree_proofs (proof_tree h) \<and> handler_nodes h' = Suc (handler_nodes h) \<and>
    embed_proof h' = embed_proof h \<and> emulator_complete h' = emulator_complete h"
  using pt.register_next [OF assms(1,2)] assms(3) by auto

lemma process_settled:
  assumes "embed_proof h = None" and "process_match msg h = record_proof k p h"
    and "set_proof k p (proof_tree h) = Ret (t, None)"
  shows "process msg h = Ret (h\<lparr>proof_tree := t\<rparr>, None)"
  using assms by (simp add: process_def record_proof_def complete_def)

lemma process_merged:
  assumes "embed_proof h = None" and "process_match msg h = record_proof k p h"
    and "set_proof k p (proof_tree h) = Ret (t, Some [a, b])"
  shows "process msg h = Ret (h\<lparr>proof_tree := t\<rparr>, Some (Combine (CombineRequest
     \<lparr>flag_complete = (ProofTree_len t = 1), creq_chunk_index = k, creq_proofs = [a, b]\<rparr>)
     (usize_to_string k) ''''))"
  using assms by (simp add: process_def record_proof_def complete_def)

text \<open>The follow-up of a recorded result: a combine request for the widened flight.\<close>

lemma record_proof_step:
  assumes inv: "handler_inv h m" and m: "m < 2 ^ 64" and e: "embed_proof h = None"
    and fl: "(k, start_chunk p, end_chunk p) \<in># handler_flights h"
    and msg: "process_match msg h = record_proof k p h"
  shows "\<exists>h' r. process msg h = Ret (h', r) \<and> handler_inv h' m \<and> embed_proof h' = None \<and>
    emulator_complete h' = emulator_complete h \<and>
    tree_proofs (proof_tree h') \<subseteq> insert p (tree_proofs (proof_tree h)) \<and>
    (r = None \<and> handler_nodes h' = handler_nodes h \<and>
       handler_flights h = add_mset (k, start_chunk p, end_chunk p) (handler_flights h')
     \<or> (\<exists>a b F. r = Some (Combine (CombineRequest \<lparr>flag_complete = (handler_nodes h' = 1),
             creq_chunk_index = k, creq_proofs = [a, b]\<rparr>) (usize_to_string k) '''') \<and>
         adjacent a b \<and> Suc (handler_nodes h') = handler_nodes h \<and>
         {a, b} \<subseteq> insert p (tree_proofs (proof_tree h)) \<and>
         handler_flights h = add_mset (k, start_chunk p, end_chunk p) F \<and>
         handler_flights h' = add_mset (k, start_chunk a, end_chunk b) F))"
    (is "\<exists>h' r. ?Q h' r")
proof -
  obtain t r where sp: "set_proof k p (proof_tree h) = Ret (t, r)" and inv': "tree_inv t m"
    and ps: "tree_proofs t \<subseteq> insert p (tree_proofs (proof_tree h))"
    and cases: "(r = None \<and> length (tree t) = handler_nodes h \<and>
         open_nodes (proof_tree h) = add_mset (k, start_chunk p, end_chunk p) (open_nodes t)
       \<or> (\<exists>a b F. r = Some [a, b] \<and> adjacent a b \<and> Suc (length (tree t)) = handler_nodes h \<and>
           {a, b} \<subseteq> insert p (tree_proofs (proof_tree h)) \<and>
           open_nodes (proof_tree h) = add_mset (k, start_chunk p, end_chunk p) F \<and>
           open_nodes t = add_mset (k, start_chunk a, end_chunk b) F))"
    using pt.report_flight [OF inv fl] by (elim exE conjE) (rule that)
  have len: "ProofTree_len t = 1 \<longleftrightarrow> length (tree t) = 1" using ProofTree_len_one [OF inv' m] .
  from cases show ?thesis
  proof (elim disjE exE conjE)
    assume r: "r = None" and "length (tree t) = handler_nodes h"
      and "open_nodes (proof_tree h) = add_mset (k, start_chunk p, end_chunk p) (open_nodes t)"
    with process_settled [OF e msg] sp inv' ps e have "?Q (h\<lparr>proof_tree := t\<rparr>) None" by simp
    then show ?thesis by blast
  next
    fix a b F
    assume r: "r = Some [a, b]" and facts: "adjacent a b" "Suc (length (tree t)) = handler_nodes h"
      "{a, b} \<subseteq> insert p (tree_proofs (proof_tree h))"
      "open_nodes (proof_tree h) = add_mset (k, start_chunk p, end_chunk p) F"
      "open_nodes t = add_mset (k, start_chunk a, end_chunk b) F"
    let ?h = "h\<lparr>proof_tree := t\<rparr>"
    let ?q = "Combine (CombineRequest \<lparr>flag_complete = (handler_nodes ?h = 1),
             creq_chunk_index = k, creq_proofs = [a, b]\<rparr>) (usize_to_string k) ''''"
    have P: "process msg h = Ret (?h, Some ?q)"
      using process_merged [OF e msg] sp len by (simp add: r)
    show ?thesis
      by (intro exI [of _ ?h] exI [of _ "Some ?q"] conjI disjI2 exI [of _ a] exI [of _ b] exI [of _ F])
        (use P inv' ps e facts in simp_all)
  qed
qed

lemma process_Embed:
  "process (Embed pr) h = Ret (h\<lparr>embed_proof := Some pr\<rparr>, Some Exit)"
  by (simp add: process_def set_embed_proof_def complete_def)

lemma process_EmulatorComplete:
  "embed_proof h = None \<Longrightarrow> process EmulatorComplete h = Ret (h\<lparr>emulator_complete := True\<rparr>, None)"
  by (simp add: process_def complete_def)

lemma process_Exit_panics: "process Exit h = Panic ''unsupported''"
  by (simp add: process_def)

text \<open>The handler asks to exit only when it holds an embed proof.\<close>

lemma process_exit_has_embed: "process msg h = Ret (h', Some Exit) \<Longrightarrow> \<exists>e. get_embed_proof h' = Some e"
  by (auto simp: process_def outcome_simps complete_iff get_embed_proof_def
      split: if_splits option.splits prod.splits)

end
