(* ===== verification/Onchain.thy ===== *)
theory Onchain
  imports Prelude
begin

text \<open>
  The on-chain phase (\<^verbatim>\<open>src/proving/onchain.rs\<close>): starting the gnark prover, building the
  witness, and decoding the prover's answer into the 320 proof bytes. Calls into pico-vm,
  pico-perf, the file system and the 256-bit integer library are the fields of the parameter
  \<^verbatim>\<open>gnark_lib\<close>. Texts are ASCII: characters are single bytes.
\<close>

section \<open>Code outside the service\<close>

record ('e, 'o) gnark_lib =
  gl_exists :: "string \<Rightarrow> bool" \<comment> \<open>\<^verbatim>\<open>dir.join(f).exists()\<close>\<close>
  gl_running :: bool \<comment> \<open>\<^verbatim>\<open>gnark_prover_running()\<close>\<close>
  gl_recreate :: "string + unit" \<comment> \<open>\<^verbatim>\<open>recreate_gnark_prover(field, &download_path)\<close>\<close>
  gl_base_machine :: 'o \<comment> \<open>\<^verbatim>\<open>embed_machine.base_machine().clone()\<close>\<close>
  gl_vks :: "'e \<Rightarrow> 'o list"
  gl_proofs :: "'e \<Rightarrow> 'o list"
  gl_build :: "'o \<Rightarrow> 'o \<Rightarrow> 'o \<Rightarrow> bool \<Rightarrow> 'o \<times> 'o" \<comment> \<open>\<^verbatim>\<open>OnchainVerifierCircuit::build\<close>\<close>
  gl_config :: "'o \<Rightarrow> 'o \<Rightarrow> string \<Rightarrow> string" \<comment> \<open>\<^verbatim>\<open>build_gnark_config_with_str\<close>\<close>
  gl_send :: "string \<Rightarrow> string + string" \<comment> \<open>\<^verbatim>\<open>send_gnark_prove_task\<close>\<close>
  gl_from_str_radix :: "string \<Rightarrow> nat \<Rightarrow> u256 option" \<comment> \<open>\<^verbatim>\<open>U256::from_str_radix\<close>\<close>
  gl_to_be_bytes :: "u256 \<Rightarrow> bytes" \<comment> \<open>\<^verbatim>\<open>U256::to_be_bytes_vec\<close>\<close>

text \<open>
  The documented behaviour of the integer library that decoding relies on: a string of one
  to 64 hexadecimal digits parses to the number it denotes, and the big-endian bytes of a
  256-bit integer are its 32 base-256 digits, most significant first.
\<close>

definition u256_conforms :: "('e, 'o) gnark_lib \<Rightarrow> bool" where
  "u256_conforms lib \<longleftrightarrow>
     (\<forall>ds. ds \<noteq> [] \<longrightarrow> length ds \<le> 64 \<longrightarrow> (\<forall>d \<in> set ds. d < 16) \<longrightarrow>
        gl_from_str_radix lib (map hex_char ds) 16 = Some (of_nat (from_base 16 ds))) \<and>
     (\<forall>w. gl_to_be_bytes lib w = be_bytes 32 (unat w))"

section \<open>Text operations of the standard library\<close>

definition is_whitespace :: "char \<Rightarrow> bool" where
  "is_whitespace c \<longleftrightarrow> c \<in> {CHR '' '', CHR 0x09, CHR 0x0A, CHR 0x0B, CHR 0x0C, CHR 0x0D}"

definition str_trim :: "string \<Rightarrow> string" where
  "str_trim s = rev (dropWhile is_whitespace (rev (dropWhile is_whitespace s)))"

fun strip_prefix_char :: "char \<Rightarrow> string \<Rightarrow> string option" where
  "strip_prefix_char c [] = None"
| "strip_prefix_char c (x # xs) = (if x = c then Some xs else None)"

definition strip_suffix_char :: "char \<Rightarrow> string \<Rightarrow> string option" where
  "strip_suffix_char c s = map_option rev (strip_prefix_char c (rev s))"

fun unwrap_or :: "'a option \<Rightarrow> 'a \<Rightarrow> 'a" where
  "unwrap_or (Some x) d = x"
| "unwrap_or None d = d"

fun str_split :: "char \<Rightarrow> string \<Rightarrow> string list" where
  "str_split c [] = [[]]"
| "str_split c (x # xs) =
     (if x = c then [] # str_split c xs
      else case str_split c xs of [] \<Rightarrow> [[x]] | y # ys \<Rightarrow> (x # y) # ys)"

fun trim_start_0x :: "string \<Rightarrow> string" where
  "trim_start_0x (a # b # s) = (if a = CHR ''0'' \<and> b = CHR ''x'' then trim_start_0x s else a # b # s)"
| "trim_start_0x s = s"

fun mapM_outcome :: "('a \<Rightarrow> 'b outcome) \<Rightarrow> 'a list \<Rightarrow> 'b list outcome" where
  "mapM_outcome f [] = Ret []"
| "mapM_outcome f (x # xs) = bind_outcome (f x) (\<lambda>y. bind_outcome (mapM_outcome f xs) (\<lambda>ys. Ret (y # ys)))"

section \<open>Operations\<close>

definition decode_value :: "('e, 'o) gnark_lib \<Rightarrow> string \<Rightarrow> bytes outcome" where
  "decode_value lib s =
     (case gl_from_str_radix lib (trim_start_0x s) 16 of
        None \<Rightarrow> Panic ''failed to convert a hex string to an uint256''
      | Some u \<Rightarrow> Ret (gl_to_be_bytes lib u))"

text \<open>Quotes and surrounding white space off, then the comma-separated values.\<close>

definition gnark_values :: "string \<Rightarrow> string list" where
  "gnark_values proof_text =
     (let proof_text = str_trim proof_text;
          proof_text = unwrap_or (strip_prefix_char (CHR 0x22) proof_text) proof_text;
          proof_text = unwrap_or (strip_suffix_char (CHR 0x22) proof_text) proof_text
      in map str_trim (str_split (CHR '','') proof_text))"

definition decode_gnark_proof_to_bytes :: "('e, 'o) gnark_lib \<Rightarrow> string \<Rightarrow> bytes outcome" where
  "decode_gnark_proof_to_bytes lib proof_text =
     (let values = gnark_values proof_text
      in if length values = 10
         then bind_outcome (mapM_outcome (decode_value lib) values) (\<lambda>bss.
                let bs = concat bss
                in if length bs = 320 then Ret bs
                   else Panic ''ten uint256 could only be converted to 320 bytes'')
         else Panic ''gnark proof must have 10 values'')"

definition ensure_gnark_downloads :: "('e, 'o) gnark_lib \<Rightarrow> (string + unit) outcome" where
  "ensure_gnark_downloads lib =
     (let missing_files = filter (\<lambda>f. \<not> gl_exists lib f) [''vm_pk'', ''vm_vk'', ''vm_ccs'']
      in if missing_files \<noteq> [] then Panic ''[onchain] ERROR: Required gnark files are missing''
         else Ret (Inr ()))"

definition build_onchain_witness_json :: "('e, 'o) gnark_lib \<Rightarrow> 'e \<Rightarrow> string + string" where
  "build_onchain_witness_json lib ep =
     (case gl_vks lib ep of
        [] \<Rightarrow> Inl ''embed proof has no VKs''
      | vk # _ \<Rightarrow>
          (case gl_proofs lib ep of
             [] \<Rightarrow> Inl ''embed proof has no inner proofs''
           | pr # _ \<Rightarrow>
               (let (constraints, witness) = gl_build lib (gl_base_machine lib) vk pr True
                in Inr (gl_config lib constraints witness ''./''))))"

text \<open>The steps of \<^verbatim>\<open>prove_embed_onchain\<close> in order, each \<^verbatim>\<open>?\<close> an early return.\<close>

definition prove_embed_onchain :: "('e, 'o) gnark_lib \<Rightarrow> 'e \<Rightarrow> (string + bytes) outcome" where
  "prove_embed_onchain lib ep =
     bind_outcome (ensure_gnark_downloads lib) (\<lambda>r.
       case r of
         Inl err \<Rightarrow> Ret (Inl err)
       | Inr _ \<Rightarrow>
           (case (if gl_running lib then Inr () else gl_recreate lib) of
              Inl err \<Rightarrow> Ret (Inl err)
            | Inr _ \<Rightarrow>
                (case build_onchain_witness_json lib ep of
                   Inl err \<Rightarrow> Ret (Inl err)
                 | Inr json \<Rightarrow>
                     (case gl_send lib json of
                        Inl err \<Rightarrow> Ret (Inl err)
                      | Inr proof_text \<Rightarrow>
                          bind_outcome (decode_gnark_proof_to_bytes lib proof_text) (\<lambda>bs. Ret (Inr bs))))))"

section \<open>Decoding\<close>

text \<open>The text a gnark server answers with: ten quoted, comma-separated 64-digit hex values.\<close>

definition gnark_value :: "u256 \<Rightarrow> string" where
  "gnark_value w = ''0x'' @ map hex_char (to_base 16 64 (unat w))"

fun join :: "char \<Rightarrow> string list \<Rightarrow> string" where
  "join c [] = []"
| "join c [s] = s"
| "join c (s # ss) = s @ c # join c ss"

definition gnark_text :: "u256 list \<Rightarrow> string" where
  "gnark_text ws = CHR 0x22 # join (CHR '','') (map gnark_value ws) @ [CHR 0x22]"

lemma str_split_plain: "c \<notin> set s \<Longrightarrow> str_split c s = [s]"
  by (induction s) auto

lemma str_split_Cons: "c \<notin> set s \<Longrightarrow> str_split c (s @ c # rest) = s # str_split c rest"
  by (induction s) auto

lemma str_split_join: "ss \<noteq> [] \<Longrightarrow> (\<And>s. s \<in> set ss \<Longrightarrow> c \<notin> set s) \<Longrightarrow> str_split c (join c ss) = ss"
  by (induction c ss rule: join.induct) (auto simp: str_split_plain str_split_Cons)

text \<open>Characters of a value: hexadecimal digits and the \<^verbatim>\<open>x\<close> of the prefix.\<close>

lemma is_whitespace_code: "is_whitespace c \<Longrightarrow> (of_char c :: nat) \<le> 32"
  by (auto simp: is_whitespace_def)

lemma hex_char_plain:
  assumes "d < 16"
  shows "\<not> is_whitespace (hex_char d)" and "hex_char d \<noteq> CHR '',''" and "hex_char d \<noteq> CHR ''x''"
proof -
  have c: "(of_char (hex_char d) :: nat) = (if d < 10 then 48 + d else 87 + d)"
    using of_char_hex_char [OF assms] .
  show "\<not> is_whitespace (hex_char d)" using c is_whitespace_code [of "hex_char d"] by (auto split: if_splits)
  show "hex_char d \<noteq> CHR '',''" using c assms by (intro notI) (simp split: if_splits)
  show "hex_char d \<noteq> CHR ''x''" using c assms by (intro notI) (simp split: if_splits)
qed

lemma trim_start_0x_hex: "(\<And>d. d \<in> set ds \<Longrightarrow> d < 16) \<Longrightarrow> trim_start_0x (map hex_char ds) = map hex_char ds"
  by (cases "map hex_char ds" rule: trim_start_0x.cases) (auto simp: hex_char_plain)

lemma trim_start_0x_value: "trim_start_0x (gnark_value w) = map hex_char (to_base 16 64 (unat w))"
  using trim_start_0x_hex [of "to_base 16 64 (unat w)"] to_base_digits [of 16]
  by (simp add: gnark_value_def)

lemma gnark_value_chars: "c \<in> set (gnark_value w) \<Longrightarrow> \<not> is_whitespace c \<and> c \<noteq> CHR '',''"
  using hex_char_plain to_base_digits [of 16 _ 64 "unat w"]
  by (auto simp: gnark_value_def is_whitespace_def)

lemma str_trim_plain: "(\<And>c. c \<in> set s \<Longrightarrow> \<not> is_whitespace c) \<Longrightarrow> str_trim s = s"
proof -
  assume "\<And>c. c \<in> set s \<Longrightarrow> \<not> is_whitespace c"
  then have "dropWhile is_whitespace s = s" and "dropWhile is_whitespace (rev s) = rev s"
    by (cases s, simp, simp, cases s rule: rev_cases, simp, simp)
  then show ?thesis by (simp add: str_trim_def)
qed

lemma str_trim_pad:
  assumes "\<And>c. c \<in> set l \<union> set r \<Longrightarrow> is_whitespace c" and "\<not> is_whitespace a" and "\<not> is_whitespace b"
  shows "str_trim (l @ a # s @ b # r) = a # s @ [b]"
proof -
  have "dropWhile is_whitespace (l @ a # s @ b # r) = a # s @ b # r"
    using assms by (subst dropWhile_append2) auto
  moreover have "dropWhile is_whitespace (rev r @ b # rev s @ [a]) = b # rev s @ [a]"
    using assms by (subst dropWhile_append2) auto
  ultimately show ?thesis by (simp add: str_trim_def)
qed

lemma u256_value: "(of_nat (from_base 16 (to_base 16 64 (unat w))) :: u256) = w"
proof -
  have "unat w < 2 ^ 256" using unsigned_less [where ?'a = nat, of w] by simp
  then have "unat w mod 16 ^ 64 = unat w" by simp
  then show ?thesis by (simp add: from_base_to_base)
qed

lemma decode_value_gnark: "u256_conforms lib \<Longrightarrow> decode_value lib (gnark_value w) = Ret (be_bytes 32 (unat w))"
proof -
  assume conf: "u256_conforms lib"
  let ?ds = "to_base 16 64 (unat w)"
  have "?ds \<noteq> []" and "length ?ds \<le> 64" and "\<forall>d \<in> set ?ds. d < 16"
    using to_base_digits [of 16] by (auto simp flip: length_greater_0_conv)
  with conf have "gl_from_str_radix lib (map hex_char ?ds) 16 = Some (of_nat (from_base 16 ?ds))"
    unfolding u256_conforms_def by blast
  with conf show ?thesis
    by (simp add: decode_value_def trim_start_0x_value u256_value u256_conforms_def)
qed

text \<open>Joined values between quotes, surrounded by white space, come apart into the values.\<close>

lemma gnark_text_values:
  assumes "ws \<noteq> []" and "\<And>c. c \<in> set l \<union> set r \<Longrightarrow> is_whitespace c"
  shows "gnark_values (l @ gnark_text ws @ r) = map gnark_value ws"
proof -
  have q: "\<not> is_whitespace (CHR 0x22)" by (simp add: is_whitespace_def)
  have "str_trim (l @ gnark_text ws @ r) = gnark_text ws"
    using str_trim_pad [OF assms(2) q q] by (simp add: gnark_text_def)
  moreover have "str_split (CHR '','') (join (CHR '','') (map gnark_value ws)) = map gnark_value ws"
    using assms(1) gnark_value_chars by (intro str_split_join) auto
  moreover have "map str_trim (map gnark_value ws) = map gnark_value ws"
    using gnark_value_chars by (auto intro: str_trim_plain)
  ultimately show ?thesis by (simp add: gnark_values_def gnark_text_def strip_suffix_char_def)
qed

text \<open>With a conforming integer library ten parsed values always make 320 bytes.\<close>

lemma decoded_length:
  assumes "u256_conforms lib" and "mapM_outcome (decode_value lib) vs = Ret bss"
  shows "length (concat bss) = 32 * length vs"
  using assms(2)
proof (induction vs arbitrary: bss)
  case (Cons v vs)
  then obtain b bs where "bss = b # bs" "decode_value lib v = Ret b" "mapM_outcome (decode_value lib) vs = Ret bs"
    by (auto simp: outcome_simps)
  moreover from this(2) assms(1) have "length b = 32"
    by (auto simp: decode_value_def u256_conforms_def split: option.splits)
  ultimately show ?case using Cons.IH by simp
qed simp

lemma decode_value_panics:
  "mapM_outcome (decode_value lib) vs = Panic m \<Longrightarrow> m = ''failed to convert a hex string to an uint256'' \<and>
     (\<exists>v \<in> set vs. gl_from_str_radix lib (trim_start_0x v) 16 = None)"
  by (induction vs) (auto simp: outcome_simps decode_value_def split: option.splits)

lemma decode_length: "decode_gnark_proof_to_bytes lib s = Ret bs \<Longrightarrow> length bs = 320"
  by (auto simp: decode_gnark_proof_to_bytes_def outcome_simps Let_def split: if_splits)

lemma ensure_downloads_cases:
  "ensure_gnark_downloads lib = Ret (Inr ()) \<or> (\<exists>m. ensure_gnark_downloads lib = Panic m)"
  by (simp add: ensure_gnark_downloads_def Let_def)

lemma onchain_decodes:
  assumes "prove_embed_onchain lib ep = Ret (Inr bs)"
  shows "\<exists>s. decode_gnark_proof_to_bytes lib s = Ret bs"
proof -
  from assms ensure_downloads_cases [of lib] have "ensure_gnark_downloads lib = Ret (Inr ())"
    by (auto simp: prove_embed_onchain_def)
  with assms show ?thesis
    by (auto simp: prove_embed_onchain_def bind_outcome_eq_Ret split: sum.splits if_splits)
qed

section \<open>A conforming library, for witnesses\<close>

text \<open>A parser of hexadecimal texts that does what the hypotheses ask of the real one.\<close>

fun hex_digits_of :: "string \<Rightarrow> nat list option" where
  "hex_digits_of [] = Some []"
| "hex_digits_of (c # s) =
     (case hex_value c of None \<Rightarrow> None | Some d \<Rightarrow> map_option (\<lambda>ds. d # ds) (hex_digits_of s))"

definition parse_hex :: "string \<Rightarrow> nat \<Rightarrow> u256 option" where
  "parse_hex s radix =
     (if radix = 16 \<and> s \<noteq> [] \<and> length s \<le> 64 then map_option (\<lambda>ds. of_nat (from_base 16 ds)) (hex_digits_of s)
      else None)"

definition demo_lib :: "('e, nat) gnark_lib" where
  "demo_lib = \<lparr>gl_exists = (\<lambda>f. True), gl_running = True, gl_recreate = Inr (), gl_base_machine = 0,
     gl_vks = (\<lambda>e. [0]), gl_proofs = (\<lambda>e. [0]), gl_build = (\<lambda>m vk p f. (vk, p)),
     gl_config = (\<lambda>c w s. s), gl_send = (\<lambda>s. Inr (gnark_text (replicate 10 1))),
     gl_from_str_radix = parse_hex, gl_to_be_bytes = (\<lambda>w. be_bytes 32 (unat w))\<rparr>"

lemma hex_digits_of_hex: "(\<And>d. d \<in> set ds \<Longrightarrow> d < 16) \<Longrightarrow> hex_digits_of (map hex_char ds) = Some ds"
  by (induction ds) (auto simp: hex_value_char)

lemma demo_lib_conforms: "u256_conforms demo_lib"
  by (auto simp: u256_conforms_def demo_lib_def parse_hex_def hex_digits_of_hex)

text \<open>Decoding a well-formed answer of the gnark server.\<close>

lemma decode_gnark_text:
  assumes "u256_conforms lib" and "length ws = 10" and "\<And>c. c \<in> set l \<union> set r \<Longrightarrow> is_whitespace c"
  shows "decode_gnark_proof_to_bytes lib (l @ gnark_text ws @ r) =
           Ret (concat (map (\<lambda>w. be_bytes 32 (unat w)) ws))"
proof -
  have ne: "ws \<noteq> []" using assms(2) by auto
  have m: "mapM_outcome (decode_value lib) (map gnark_value ws) = Ret (map (\<lambda>w. be_bytes 32 (unat w)) ws)"
    by (induction ws) (simp_all add: decode_value_gnark [OF assms(1)])
  have "length (concat (map (\<lambda>w. be_bytes 32 (unat w)) ws)) = 320"
    using decoded_length [OF assms(1) m] assms(2) by simp
  moreover have "gnark_values (l @ gnark_text ws @ r) = map gnark_value ws"
    using gnark_text_values [OF ne] assms(3) by blast
  ultimately show ?thesis
    using m assms(2) by (simp add: decode_gnark_proof_to_bytes_def)
qed

lemma demo_lib_sends: "gl_send demo_lib s = Inr (gnark_text (replicate 10 1))"
  by (simp add: demo_lib_def)

lemma demo_lib_witness: "\<exists>json. build_onchain_witness_json demo_lib ep = Inr json"
  by (simp add: build_onchain_witness_json_def demo_lib_def)

lemma demo_onchain_returns:
  fixes ep :: 'e
  shows "\<exists>bs. prove_embed_onchain demo_lib ep = Ret (Inr bs)"
proof -
  have "decode_gnark_proof_to_bytes (demo_lib :: ('e, nat) gnark_lib) ([] @ gnark_text (replicate 10 1) @ []) =
      Ret (concat (map (\<lambda>w. be_bytes 32 (unat w)) (replicate 10 (1 :: u256))))"
    by (rule decode_gnark_text [OF demo_lib_conforms]) simp_all
  moreover have "ensure_gnark_downloads (demo_lib :: ('e, nat) gnark_lib) = Ret (Inr ())" and "gl_running (demo_lib :: ('e, nat) gnark_lib)"
    by (simp_all add: ensure_gnark_downloads_def demo_lib_def)
  ultimately show ?thesis using demo_lib_witness [of ep]
    by (auto simp: prove_embed_onchain_def demo_lib_sends)
qed

section \<open>Properties\<close>

text \<open>
  C21. Decoding undoes gnark's text format: ten 256-bit values written as quoted,
  comma-separated \<^verbatim>\<open>0x\<close>-prefixed hexadecimal numbers, with any white space around the
  text, decode to the concatenation of their 32-byte big-endian encodings.
\<close>

theorem decode_gnark_roundtrip:
  assumes "u256_conforms lib" and "length ws = 10" and "\<And>c. c \<in> set l \<union> set r \<Longrightarrow> is_whitespace c"
  shows "decode_gnark_proof_to_bytes lib (l @ gnark_text ws @ r) =
           Ret (concat (map (\<lambda>w. be_bytes 32 (unat w)) ws))"
  using assms by (rule decode_gnark_text)

theorem decode_gnark_roundtrip_witness:
  "decode_gnark_proof_to_bytes (demo_lib :: (nat, nat) gnark_lib) ([CHR 0x0A] @ gnark_text (replicate 10 258) @ []) =
     Ret (concat (replicate 10 (replicate 30 0 @ [1, 2])))"
proof -
  have "be_bytes 32 (unat (258 :: u256)) = replicate 30 0 @ [1, 2]"
    by code_simp
  moreover have "decode_gnark_proof_to_bytes (demo_lib :: (nat, nat) gnark_lib)
      ([CHR 0x0A] @ gnark_text (replicate 10 258) @ []) = Ret (concat (map (\<lambda>w. be_bytes 32 (unat w)) (replicate 10 (258 :: u256))))"
    by (rule decode_gnark_roundtrip [OF demo_lib_conforms]) (simp_all add: is_whitespace_def)
  ultimately show ?thesis by simp
qed



end
