(* ===== verification/Gateway.thy ===== *)
theory Gateway
  imports Gateway_Handler Onchain
begin

text \<open>
  The gateway loop (\<^verbatim>\<open>src/proving/gateway/mod.rs\<close>, \<^verbatim>\<open>run\<close>). One iteration takes a message of the
  emulator channel or, when that is empty, of the prover channel (\<^verbatim>\<open>select_biased!\<close>; the
  choice of the channel is made in theory \<^verbatim>\<open>Proving\<close>), and returns the new state, the messages
  it sends to the provers and whether the loop goes on. A closed channel is \<^const>\<open>None\<close>.
  \<^verbatim>\<open>completion_sender\<close> is the one-shot sender, present until it is taken;
  \<^verbatim>\<open>completion\<close> is what has been sent through it. The on-chain phase is passed in as a function.
\<close>

datatype loop_ctl = Continue | Break

record ('p, 'e) gateway =
  gw_handler :: "('p, 'e) gateway_handler"
  completion_sender :: bool
  completion :: "bytes option"

type_synonym ('r, 'p, 'e) gateway_result =
  "(('p, 'e) gateway \<times> ('r, 'p, 'e) gateway_msg list \<times> loop_ctl) outcome"

definition gateway_new :: "('p, 'e) gateway" where
  "gateway_new = \<lparr>gw_handler = GatewayHandler_new, completion_sender = True, completion = None\<rparr>"

text \<open>\<^verbatim>\<open>if let Some(sender) = completion_sender.take() { let _ = sender.send(bytes); }\<close>\<close>

definition complete_with :: "bytes \<Rightarrow> ('p, 'e) gateway \<Rightarrow> ('p, 'e) gateway" where
  "complete_with bs g =
     (if completion_sender g then g\<lparr>completion_sender := False, completion := Some bs\<rparr> else g)"

fun gateway_on_emulator ::
  "('r, 'p, 'e) gateway_msg option \<Rightarrow> ('p, 'e) gateway \<Rightarrow> ('r, 'p, 'e) gateway_result" where
  "gateway_on_emulator None g = Ret (g, [], Break)"
| "gateway_on_emulator (Some (Riscv (RiscvRequest q) tid ip)) g =
     bind_outcome (process_riscv_req (Riscv (RiscvRequest q) tid ip) (gw_handler g)) (\<lambda>(h, no_task).
       case no_task of
         None \<Rightarrow> Ret (g\<lparr>gw_handler := h\<rparr>, [Riscv (RiscvRequest q) tid ip], Continue)
       | Some _ \<Rightarrow> Panic ''assertion failed: no_task.is_none()'')"
| "gateway_on_emulator (Some EmulatorComplete) g =
     bind_outcome (process (EmulatorComplete :: ('r, 'p, 'e) gateway_msg) (gw_handler g)) (\<lambda>(h, r).
       Ret (g\<lparr>gw_handler := h\<rparr>, [], case r of Some Exit \<Rightarrow> Break | _ \<Rightarrow> Continue))"
| "gateway_on_emulator (Some _) g = Panic ''unsupported''"

definition gateway_exit ::
  "('e \<Rightarrow> (string + bytes) outcome) \<Rightarrow> ('p, 'e) gateway \<Rightarrow> ('p, 'e) gateway outcome" where
  "gateway_exit onchain g =
     (case get_embed_proof (gw_handler g) of
        Some ep \<Rightarrow> bind_outcome (onchain ep) (\<lambda>r.
          let proof_bytes = (case r of Inr bs \<Rightarrow> bs | Inl _ \<Rightarrow> []) in Ret (complete_with proof_bytes g))
      | None \<Rightarrow> Ret (complete_with [] g))"

definition gateway_process ::
  "('e \<Rightarrow> (string + bytes) outcome) \<Rightarrow> ('r, 'p, 'e) gateway_msg \<Rightarrow> ('p, 'e) gateway \<Rightarrow>
     ('r, 'p, 'e) gateway_result" where
  "gateway_process onchain msg g =
     bind_outcome (process msg (gw_handler g)) (\<lambda>(h, r).
       case r of
         None \<Rightarrow> Ret (g\<lparr>gw_handler := h\<rparr>, [], Continue)
       | Some Exit \<Rightarrow> bind_outcome (gateway_exit onchain (g\<lparr>gw_handler := h\<rparr>)) (\<lambda>g'. Ret (g', [], Break))
       | Some m \<Rightarrow> Ret (g\<lparr>gw_handler := h\<rparr>, [m], Continue))"

fun gateway_on_prover ::
  "('e \<Rightarrow> (string + bytes) outcome) \<Rightarrow> ('r, 'p, 'e) gateway_msg option \<Rightarrow> ('p, 'e) gateway \<Rightarrow>
     ('r, 'p, 'e) gateway_result" where
  "gateway_on_prover onchain None g = Ret (g, [], Break)"
| "gateway_on_prover onchain (Some (Riscv (RiscvResponse r) tid ip)) g =
     gateway_process onchain (Riscv (RiscvResponse r) tid ip) g"
| "gateway_on_prover onchain (Some (Combine (CombineResponse r) tid ip)) g =
     gateway_process onchain (Combine (CombineResponse r) tid ip) g"
| "gateway_on_prover onchain (Some (Embed ep)) g = gateway_process onchain (Embed ep) g"
| "gateway_on_prover onchain (Some Exit) g = gateway_process onchain Exit g"
| "gateway_on_prover onchain (Some RequestTask) g = Ret (g, [], Continue)"
| "gateway_on_prover onchain (Some _) g = Panic ''unsupported''"

section \<open>Iterations\<close>

lemma complete_with_handler [simp]: "gw_handler (complete_with bs g) = gw_handler g"
  by (simp add: complete_with_def)

lemma on_emulator_request:
  assumes "handler_inv (gw_handler g) m" and "m < 2 ^ 64" and "rreq_chunk_index q = of_nat m"
  shows "\<exists>h. gateway_on_emulator (Some (Riscv (RiscvRequest q) tid ip)) g =
      Ret (g\<lparr>gw_handler := h\<rparr>, [Riscv (RiscvRequest q) tid ip], Continue) \<and>
    handler_inv h (Suc m) \<and>
    handler_flights h = add_mset (of_nat m, of_nat m, of_nat m) (handler_flights (gw_handler g)) \<and>
    tree_proofs (proof_tree h) = tree_proofs (proof_tree (gw_handler g)) \<and>
    handler_nodes h = Suc (handler_nodes (gw_handler g)) \<and> embed_proof h = embed_proof (gw_handler g)"
  using process_riscv_req_new [OF assms, of tid ip] by (auto simp del: process_riscv_req.simps)

lemma on_emulator_complete:
  "embed_proof (gw_handler g) = None \<Longrightarrow>
   gateway_on_emulator (Some EmulatorComplete) g =
     Ret (g\<lparr>gw_handler := (gw_handler g)\<lparr>emulator_complete := True\<rparr>\<rparr>, [], Continue)"
  by (simp add: process_EmulatorComplete)

lemma on_prover_embed:
  "gateway_on_prover onchain (Some (Embed ep)) g =
     bind_outcome (onchain ep) (\<lambda>r. Ret (complete_with (case r of Inr bs \<Rightarrow> bs | Inl _ \<Rightarrow> [])
       (g\<lparr>gw_handler := (gw_handler g)\<lparr>embed_proof := Some ep\<rparr>\<rparr>), [], Break))"
  by (cases "onchain ep") (simp_all add: gateway_process_def process_Embed gateway_exit_def get_embed_proof_def)

text \<open>A prover result, riscv or combine, as key and proof.\<close>

fun result_of :: "('r, 'p, 'e) gateway_msg \<Rightarrow> (usize \<times> 'p indexed_proof) option" where
  "result_of (Riscv (RiscvResponse r) _ _) = Some (rres_chunk_index r, rres_proof r)"
| "result_of (Combine (CombineResponse r) _ _) = Some (cres_chunk_index r, cres_proof r)"
| "result_of _ = None"

lemma result_of_cases:
  assumes "result_of msg = Some (k, p)"
  shows "process_match msg h = record_proof k p h"
    and "gateway_on_prover onchain (Some msg) g = gateway_process onchain msg g"
    and "msg_flight msg = {#(k, start_chunk p, end_chunk p)#}" and "msg_proofs msg = {p}"
  using assms by (cases msg rule: result_of.cases; auto)+

definition combine_task :: "bool \<Rightarrow> usize \<Rightarrow> 'p indexed_proof \<Rightarrow> 'p indexed_proof \<Rightarrow> ('r, 'p, 'e) gateway_msg" where
  "combine_task flag k a b = Combine (CombineRequest \<lparr>flag_complete = flag, creq_chunk_index = k,
     creq_proofs = [a, b]\<rparr>) (usize_to_string k) ''''"

lemma combine_task_simps [simp]:
  "msg_flight (combine_task flag k a b) = {#(k, start_chunk a, end_chunk b)#}"
  "msg_proofs (combine_task flag k a b) = {a, b}"
  "is_task (combine_task flag k a b) \<longleftrightarrow> adjacent a b"
  "combine_task flag k a b \<noteq> Exit"
  by (simp_all add: combine_task_def)

lemma on_prover_result:
  assumes inv: "handler_inv (gw_handler g) m" and m: "m < 2 ^ 64" and e: "embed_proof (gw_handler g) = None"
    and res: "result_of msg = Some (k, p)"
    and fl: "(k, start_chunk p, end_chunk p) \<in># handler_flights (gw_handler g)"
  obtains (settled) h where
      "gateway_on_prover onchain (Some msg) g = Ret (g\<lparr>gw_handler := h\<rparr>, [], Continue)"
      "handler_inv h m" "embed_proof h = None" "handler_nodes h = handler_nodes (gw_handler g)"
      "tree_proofs (proof_tree h) \<subseteq> insert p (tree_proofs (proof_tree (gw_handler g)))"
      "handler_flights (gw_handler g) = add_mset (k, start_chunk p, end_chunk p) (handler_flights h)"
  | (merged) h a b F where
      "gateway_on_prover onchain (Some msg) g =
         Ret (g\<lparr>gw_handler := h\<rparr>, [combine_task (handler_nodes h = 1) k a b], Continue)"
      "handler_inv h m" "embed_proof h = None" "Suc (handler_nodes h) = handler_nodes (gw_handler g)"
      "tree_proofs (proof_tree h) \<subseteq> insert p (tree_proofs (proof_tree (gw_handler g)))"
      "adjacent a b" "{a, b} \<subseteq> insert p (tree_proofs (proof_tree (gw_handler g)))"
      "handler_flights (gw_handler g) = add_mset (k, start_chunk p, end_chunk p) F"
      "handler_flights h = add_mset (k, start_chunk a, end_chunk b) F"
proof -
  from record_proof_step [OF inv m e fl result_of_cases(1) [OF res], folded combine_task_def]
  obtain h r where P: "process msg (gw_handler g) = Ret (h, r)" and h: "handler_inv h m" "embed_proof h = None"
    "tree_proofs (proof_tree h) \<subseteq> insert p (tree_proofs (proof_tree (gw_handler g)))"
    and cs: "r = None \<and> handler_nodes h = handler_nodes (gw_handler g) \<and>
       handler_flights (gw_handler g) = add_mset (k, start_chunk p, end_chunk p) (handler_flights h)
     \<or> (\<exists>a b F. r = Some (combine_task (handler_nodes h = 1) k a b) \<and>
         adjacent a b \<and> Suc (handler_nodes h) = handler_nodes (gw_handler g) \<and>
         {a, b} \<subseteq> insert p (tree_proofs (proof_tree (gw_handler g))) \<and>
         handler_flights (gw_handler g) = add_mset (k, start_chunk p, end_chunk p) F \<and>
         handler_flights h = add_mset (k, start_chunk a, end_chunk b) F)"
    by (elim exE conjE) (rule that)
  note G = result_of_cases(2) [OF res, of onchain g]
  from cs show ?thesis
  proof (elim disjE exE conjE)
    assume "r = None" and facts: "handler_nodes h = handler_nodes (gw_handler g)"
      "handler_flights (gw_handler g) = add_mset (k, start_chunk p, end_chunk p) (handler_flights h)"
    then have "gateway_on_prover onchain (Some msg) g = Ret (g\<lparr>gw_handler := h\<rparr>, [], Continue)"
      using P by (simp add: G gateway_process_def)
    then show ?thesis using h facts by (intro settled)
  next
    fix a b F
    assume "r = Some (combine_task (handler_nodes h = 1) k a b)" and facts: "adjacent a b"
      "Suc (handler_nodes h) = handler_nodes (gw_handler g)"
      "{a, b} \<subseteq> insert p (tree_proofs (proof_tree (gw_handler g)))"
      "handler_flights (gw_handler g) = add_mset (k, start_chunk p, end_chunk p) F"
      "handler_flights h = add_mset (k, start_chunk a, end_chunk b) F"
    then have "gateway_on_prover onchain (Some msg) g =
        Ret (g\<lparr>gw_handler := h\<rparr>, [combine_task (handler_nodes h = 1) k a b], Continue)"
      using P by (simp add: G gateway_process_def combine_task_def)
    then show ?thesis using h facts by (intro merged)
  qed
qed

section \<open>The end of the loop\<close>

text \<open>
  The gateway ends its loop only with an embed proof in hand: whatever message it processes,
  when the handler asks to exit, the embed proof is there, so the branch that completes with
  empty bytes for want of an embed proof is dead; and a bare \<^verbatim>\<open>Exit\<close> from a prover panics.
\<close>

lemma gateway_exit_has_embed:
  "process msg h = Ret (h', Some Exit) \<Longrightarrow> \<exists>e. get_embed_proof h' = Some e"
  "gateway_on_prover onchain (Some Exit) g = (Panic ''unsupported'' :: ('r, 'p, 'e) gateway_result)"
  using process_exit_has_embed [of msg h h'] by (simp_all add: gateway_process_def process_Exit_panics)

end
