(* ===== verification/Proving_Task.thy ===== *)
theory Proving_Task
  imports Prelude
begin

text \<open>
  The data of a proving task (\<^verbatim>\<open>src/proving_queue.rs\<close>, top): the key under which its result is
  stored, the task itself and its output. \<open>'g\<close> is a compiled program, \<open>'pk\<close> and \<open>'vk\<close> are
  pico-vm's keys.
\<close>

record proving_key =
  key_app_id :: string
  key_task_id :: string

definition ProvingKey_new :: "string \<Rightarrow> string \<Rightarrow> proving_key" where
  "ProvingKey_new a t = \<lparr>key_app_id = a, key_task_id = t\<rparr>"

record ('g, 'pk, 'vk) proving_task =
  task_key :: proving_key
  task_program :: 'g
  task_pk :: 'pk
  task_vk :: 'vk
  task_inputs :: "bytes option"
  use_gpu :: bool

record proving_output =
  output_proof :: bytes

type_synonym proving_outputs = "proving_key \<rightharpoonup> proving_output"

end
