(* ===== verification/Worker.thy ===== *)
theory Worker
  imports Gateway Proving_Task
begin

text \<open>
  The provers (\<^verbatim>\<open>src/proving/worker/prover/\<close>): conversion of one chunk, combination of two
  adjacent proofs, compression and embedding of the final proof, and the prover loop. What
  the code calls in pico-vm is a field of the parameter \<^verbatim>\<open>pico_vm\<close>; \<open>'o\<close> stands for the
  opaque pico-vm objects (machines, programs, witnesses, records of the recursion runtime,
  digests) that the service only passes from one call to the next. Calls that can panic
  return an outcome.
\<close>

section \<open>Code outside the service\<close>

datatype 'o stdin_variant = WithVk 'o | NoVk 'o

record ('pk, 'vk, 'r, 'p, 'e, 'o) pico_vm =
  vm_vk_enabled :: bool
  vm_merkle_root :: 'o
  vm_zero_digest :: 'o
  vm_riscv_shape :: 'o
  vm_recursion_shape :: 'o
  vm_riscv_machine :: 'o
  vm_convert_machine :: 'o
  vm_combine_machine :: 'o
  vm_compress_machine :: 'o
  vm_compress_machine_c :: 'o \<comment> \<open>as the embed prover builds it, with \<^verbatim>\<open>compress_chips\<close>\<close>
  vm_embed_machine :: 'o
  vm_base_machine :: "'o \<Rightarrow> 'o"
  vm_challenger :: "'o \<Rightarrow> 'o"
  vm_perm :: "'o \<Rightarrow> 'o"
  vm_observed_by :: "'pk \<Rightarrow> 'o \<Rightarrow> 'o"
  vm_is_last :: "'r \<Rightarrow> bool"
  vm_prove_record :: "'o \<Rightarrow> usize \<Rightarrow> 'pk \<Rightarrow> 'o \<Rightarrow> 'o option \<Rightarrow> 'r \<Rightarrow> 'o outcome"
  vm_convert_stdin :: "'vk \<Rightarrow> 'o \<Rightarrow> 'o \<Rightarrow> 'o \<Rightarrow> 'o \<Rightarrow> 'o option \<Rightarrow> usize \<Rightarrow> bool \<Rightarrow> 'o"
  vm_convert_witness :: "'o \<Rightarrow> 'o"
  vm_prove_with_index :: "'o \<Rightarrow> u32 \<Rightarrow> 'o \<Rightarrow> 'p outcome"
  vm_combine_size :: nat
  vm_prove_two :: "'o \<Rightarrow> 'p \<Rightarrow> 'p \<Rightarrow> bool \<Rightarrow> 'p outcome"
  vm_vks :: "'p \<Rightarrow> 'o"
  vm_proofs :: "'p \<Rightarrow> 'o"
  vm_recursion_stdin :: "'o \<Rightarrow> 'o \<Rightarrow> 'o \<Rightarrow> bool \<Rightarrow> 'o \<Rightarrow> 'o"
  vm_add_vk_merkle_proof :: "'o \<Rightarrow> 'o"
  vm_compress_vk_circuit :: "'o \<Rightarrow> 'o \<Rightarrow> 'o"
  vm_compress_circuit :: "'o \<Rightarrow> 'o \<Rightarrow> 'o"
  vm_compress_shape :: 'o
  vm_set_shape :: "'o \<Rightarrow> 'o \<Rightarrow> 'o"
  vm_embed_vk_circuit :: "'o \<Rightarrow> 'o \<Rightarrow> 'o"
  vm_embed_circuit :: "'o \<Rightarrow> 'o \<Rightarrow> 'o"
  vm_witness_stream :: "'o stdin_variant \<Rightarrow> 'o"
  vm_runtime :: "'o \<Rightarrow> 'o \<Rightarrow> 'o \<Rightarrow> string + 'o"
  vm_complement :: "'o \<Rightarrow> 'o \<Rightarrow> 'o"
  vm_setup_keys :: "'o \<Rightarrow> 'o \<Rightarrow> 'o \<times> 'o"
  vm_keys_witness :: "'o \<Rightarrow> 'o \<Rightarrow> 'o list \<Rightarrow> 'o"
  vm_prove :: "'o \<Rightarrow> 'o \<Rightarrow> 'p outcome"
  vm_embed_prove :: "'o \<Rightarrow> 'o \<Rightarrow> 'e outcome"
  vm_verify :: "'o \<Rightarrow> 'p \<Rightarrow> 'vk \<Rightarrow> string + unit"
  vm_embed_verify :: "'o \<Rightarrow> 'e \<Rightarrow> 'vk \<Rightarrow> string + unit"

definition get_vk_root :: "('pk, 'vk, 'r, 'p, 'e, 'o) pico_vm \<Rightarrow> 'o" where
  "get_vk_root vm = (if vm_vk_enabled vm then vm_merkle_root vm else vm_zero_digest vm)"

section \<open>Riscv and convert\<close>

record ('pk, 'vk, 'o) riscv_convert_prover =
  rcp_prover_id :: string
  riscv_shape_config :: "'o option"
  recursion_shape_config :: "'o option"
  riscv_machine :: 'o
  convert_machine :: 'o
  rcp_pk :: 'pk
  rcp_riscv_vk :: 'vk

definition RiscvConvertProver_new ::
  "('pk, 'vk, 'r, 'p, 'e, 'o) pico_vm \<Rightarrow> string \<Rightarrow> ('g, 'pk, 'vk) proving_task \<Rightarrow> ('pk, 'vk, 'o) riscv_convert_prover" where
  "RiscvConvertProver_new vm prover_id task =
     (let vk_enabled = vm_vk_enabled vm
      in \<lparr>rcp_prover_id = prover_id,
          riscv_shape_config = (if vk_enabled then Some (vm_riscv_shape vm) else None),
          recursion_shape_config = (if vk_enabled then Some (vm_recursion_shape vm) else None),
          riscv_machine = vm_riscv_machine vm,
          convert_machine = vm_convert_machine vm,
          rcp_pk = task_pk task,
          rcp_riscv_vk = task_vk task\<rparr>)"

definition riscv_vk :: "('pk, 'vk, 'o) riscv_convert_prover \<Rightarrow> 'vk" where
  "riscv_vk c = rcp_riscv_vk c"

definition riscv_convert_process ::
  "('pk, 'vk, 'r, 'p, 'e, 'o) pico_vm \<Rightarrow> ('pk, 'vk, 'o) riscv_convert_prover \<Rightarrow> 'r riscv_request \<Rightarrow> 'o \<Rightarrow>
     'p riscv_response outcome" where
  "riscv_convert_process vm c req vk_root =
     (let challenger = vm_observed_by vm (rcp_pk c) (vm_challenger vm (riscv_machine c));
          chunk_index = rreq_chunk_index req;
          is_last_chunk = vm_is_last vm (rreq_record req)
      in bind_outcome
           (vm_prove_record vm (riscv_machine c) chunk_index (rcp_pk c) challenger (riscv_shape_config c)
              (rreq_record req))
           (\<lambda>pr.
             let convert_stdin = vm_convert_stdin vm (rcp_riscv_vk c) vk_root (vm_zero_digest vm)
                   (vm_base_machine vm (riscv_machine c)) pr (recursion_shape_config c) chunk_index is_last_chunk;
                 convert_witness = vm_convert_witness vm convert_stdin
             in bind_outcome (vm_prove_with_index vm (convert_machine c) (ucast chunk_index) convert_witness)
                  (\<lambda>pr. Ret \<lparr>rres_chunk_index = chunk_index,
                               rres_proof = IndexedProof_new pr chunk_index chunk_index\<rparr>)))"

section \<open>Combine\<close>

record 'o combine_prover =
  cp_prover_id :: string
  cp_machine :: 'o

definition CombineProver_new :: "('pk, 'vk, 'r, 'p, 'e, 'o) pico_vm \<Rightarrow> string \<Rightarrow> 'o combine_prover" where
  "CombineProver_new vm prover_id = \<lparr>cp_prover_id = prover_id, cp_machine = vm_combine_machine vm\<rparr>"

definition combine_process ::
  "('pk, 'vk, 'r, 'p, 'e, 'o) pico_vm \<Rightarrow> 'o combine_prover \<Rightarrow> 'p combine_request \<Rightarrow> 'p combine_response outcome" where
  "combine_process vm c req =
     (let chunk_index = creq_chunk_index req; proofs = creq_proofs req
      in if length proofs \<le> vm_combine_size vm
         then case proofs of
           a # b # _ \<Rightarrow>
             (let start_a = start_chunk a; end_a = end_chunk a; start_b = start_chunk b; end_b = end_chunk b
              in if end_a + 1 = start_b
                 then bind_outcome (vm_prove_two vm (cp_machine c) (get_inner a) (get_inner b) (flag_complete req))
                        (\<lambda>pr. Ret \<lparr>cres_chunk_index = chunk_index, cres_proof = IndexedProof_new pr start_a end_b\<rparr>)
                 else Panic ''proofs are not adjacent: cannot combine'')
         | _ \<Rightarrow> Panic ''index out of bounds''
         else Panic ''assertion failed: proofs.len() <= COMBINE_SIZE'')"

definition combine_verify ::
  "('pk, 'vk, 'r, 'p, 'e, 'o) pico_vm \<Rightarrow> 'o combine_prover \<Rightarrow> 'p \<Rightarrow> 'vk \<Rightarrow> string + unit" where
  "combine_verify vm c pr vk = vm_verify vm (cp_machine c) pr vk"

section \<open>Compress\<close>

record 'o compress_prover =
  zp_prover_id :: string
  zp_machine :: 'o

definition CompressProver_new :: "('pk, 'vk, 'r, 'p, 'e, 'o) pico_vm \<Rightarrow> string \<Rightarrow> 'o compress_prover" where
  "CompressProver_new vm prover_id = \<lparr>zp_prover_id = prover_id, zp_machine = vm_compress_machine vm\<rparr>"

text \<open>The emulation block: the witness stream, the runtime and \<^verbatim>\<open>runtime.run().unwrap()\<close>.\<close>

definition run_recursion :: "('pk, 'vk, 'r, 'p, 'e, 'o) pico_vm \<Rightarrow> 'o \<Rightarrow> 'o \<Rightarrow> 'o stdin_variant \<Rightarrow> 'o outcome" where
  "run_recursion vm program perm variant =
     (case vm_runtime vm program perm (vm_witness_stream vm variant) of
        Inl err \<Rightarrow> Panic ''called `Result::unwrap()` on an `Err` value''
      | Inr record \<Rightarrow> Ret record)"

definition compress_get_vk_root :: "('pk, 'vk, 'r, 'p, 'e, 'o) pico_vm \<Rightarrow> 'o" where
  "compress_get_vk_root vm = (if vm_vk_enabled vm then vm_merkle_root vm else vm_zero_digest vm)"

text \<open>From the combined proof to the compress proof, on the prover's machine.\<close>

definition compress_prove ::
  "('pk, 'vk, 'r, 'p, 'e, 'o) pico_vm \<Rightarrow> 'o \<Rightarrow> 'p \<Rightarrow> 'p outcome" where
  "compress_prove vm machine pr =
     (let vk_root = compress_get_vk_root vm;
          base = vm_base_machine vm (vm_combine_machine vm);
          compress_stdin = vm_recursion_stdin vm base (vm_vks vm pr) (vm_proofs vm pr) True vk_root;
          (compress_program, variant) =
            (if vm_vk_enabled vm
             then let compress_vk_stdin = vm_add_vk_merkle_proof vm compress_stdin;
                      program = vm_compress_vk_circuit vm base compress_vk_stdin
                  in (vm_set_shape vm program (vm_compress_shape vm), WithVk compress_vk_stdin)
             else (vm_compress_circuit vm base compress_stdin, NoVk compress_stdin))
      in bind_outcome (run_recursion vm compress_program (vm_perm vm machine) variant) (\<lambda>record.
           let record = vm_complement vm machine record;
               (compress_pk, compress_vk) = vm_setup_keys vm machine compress_program
           in vm_prove vm machine (vm_keys_witness vm compress_pk compress_vk [record])))"

definition compress_process ::
  "('pk, 'vk, 'r, 'p, 'e, 'o) pico_vm \<Rightarrow> 'o compress_prover \<Rightarrow> 'p compress_request \<Rightarrow> 'p compress_response outcome" where
  "compress_process vm z req =
     (let chunk_index = zreq_chunk_index req; pr = zreq_proof req
      in bind_outcome (compress_prove vm (zp_machine z) (get_inner pr)) (\<lambda>compress_proof.
           Ret \<lparr>zres_chunk_index = chunk_index,
                zres_proof = IndexedProof_new compress_proof chunk_index chunk_index\<rparr>))"

definition compress_verify ::
  "('pk, 'vk, 'r, 'p, 'e, 'o) pico_vm \<Rightarrow> 'o compress_prover \<Rightarrow> 'p \<Rightarrow> 'vk \<Rightarrow> string + unit" where
  "compress_verify vm z pr vk = vm_verify vm (zp_machine z) pr vk"

section \<open>Embed\<close>

record 'o embed_prover =
  ep_prover_id :: string
  ep_machine :: 'o

definition EmbedProver_new :: "('pk, 'vk, 'r, 'p, 'e, 'o) pico_vm \<Rightarrow> string \<Rightarrow> 'o embed_prover" where
  "EmbedProver_new vm prover_id = \<lparr>ep_prover_id = prover_id, ep_machine = vm_embed_machine vm\<rparr>"

definition embed_get_vk_root :: "('pk, 'vk, 'r, 'p, 'e, 'o) pico_vm \<Rightarrow> 'o" where
  "embed_get_vk_root vm = (if vm_vk_enabled vm then vm_merkle_root vm else vm_zero_digest vm)"

text \<open>From the compress proof to the embed proof; the compress machine is built anew.\<close>

definition embed_prove ::
  "('pk, 'vk, 'r, 'p, 'e, 'o) pico_vm \<Rightarrow> 'o \<Rightarrow> 'p \<Rightarrow> 'e outcome" where
  "embed_prove vm machine pr =
     (let vk_root = embed_get_vk_root vm;
          compress_machine = vm_compress_machine_c vm;
          base = vm_base_machine vm compress_machine;
          embed_stdin = vm_recursion_stdin vm base (vm_vks vm pr) (vm_proofs vm pr) True vk_root;
          (embed_program, variant) =
            (if vm_vk_enabled vm
             then let embed_vk_stdin = vm_add_vk_merkle_proof vm embed_stdin
                  in (vm_embed_vk_circuit vm base embed_vk_stdin, WithVk embed_vk_stdin)
             else (vm_embed_circuit vm base embed_stdin, NoVk embed_stdin))
      in bind_outcome (run_recursion vm embed_program (vm_perm vm compress_machine) variant) (\<lambda>record.
           let record = vm_complement vm machine record;
               (embed_pk, embed_vk) = vm_setup_keys vm machine embed_program
           in vm_embed_prove vm machine (vm_keys_witness vm embed_pk embed_vk [record])))"

definition embed_process ::
  "('pk, 'vk, 'r, 'p, 'e, 'o) pico_vm \<Rightarrow> 'o embed_prover \<Rightarrow> 'p embed_request \<Rightarrow> 'e embed_response outcome" where
  "embed_process vm ep req =
     (let chunk_index = ereq_chunk_index req; pr = ereq_proof req
      in bind_outcome (embed_prove vm (ep_machine ep) (get_inner pr)) (\<lambda>embed_proof.
           Ret \<lparr>eres_chunk_index = chunk_index,
                eres_proof = IndexedProof_new embed_proof chunk_index chunk_index\<rparr>))"

definition embed_verify ::
  "('pk, 'vk, 'r, 'p, 'e, 'o) pico_vm \<Rightarrow> 'o embed_prover \<Rightarrow> 'e \<Rightarrow> 'vk \<Rightarrow> string + unit" where
  "embed_verify vm ep pr vk = vm_embed_verify vm (ep_machine ep) pr vk"

section \<open>The prover loop\<close>

record ('pk, 'vk, 'o) prover =
  prover_id :: string
  riscv_convert :: "('pk, 'vk, 'o) riscv_convert_prover"
  combine :: "'o combine_prover"
  compress :: "'o compress_prover"
  embed :: "'o embed_prover"
  vk_root :: 'o

definition Prover_new ::
  "('pk, 'vk, 'r, 'p, 'e, 'o) pico_vm \<Rightarrow> string \<Rightarrow> ('g, 'pk, 'vk) proving_task \<Rightarrow> ('pk, 'vk, 'o) prover" where
  "Prover_new vm pid task =
     \<lparr>prover_id = pid,
      riscv_convert = RiscvConvertProver_new vm pid task,
      combine = CombineProver_new vm pid,
      compress = CompressProver_new vm pid,
      embed = EmbedProver_new vm pid,
      vk_root = get_vk_root vm\<rparr>"

definition Prover_new_cuda ::
  "('pk, 'vk, 'r, 'p, 'e, 'o) pico_vm \<Rightarrow> string \<Rightarrow> ('g, 'pk, 'vk) proving_task \<Rightarrow> ('pk, 'vk, 'o) prover outcome" where
  "Prover_new_cuda vm pid task = Panic ''not implemented''"

definition Prover_run_cuda :: "('pk, 'vk, 'o) prover \<Rightarrow> unit outcome" where
  "Prover_run_cuda pv = Panic ''not implemented''"

text \<open>The message a prover sends before its loop.\<close>

definition prover_start :: "('r, 'p, 'e) gateway_msg list" where
  "prover_start = [RequestTask]"

text \<open>
  The final combine: compress, embed and verify directly. The embed proof when it verifies,
  \<^const>\<open>None\<close> when verification fails.
\<close>

definition finish_proof ::
  "('pk, 'vk, 'r, 'p, 'e, 'o) pico_vm \<Rightarrow> ('pk, 'vk, 'o) prover \<Rightarrow> 'p combine_response \<Rightarrow> 'e option outcome" where
  "finish_proof vm pv res =
     bind_outcome (compress_process vm (compress pv)
         \<lparr>zreq_chunk_index = cres_chunk_index res, zreq_proof = IndexedProof_clone (cres_proof res)\<rparr>) (\<lambda>compress_res.
       bind_outcome (embed_process vm (embed pv)
           \<lparr>ereq_chunk_index = zres_chunk_index compress_res, ereq_proof = zres_proof compress_res\<rparr>) (\<lambda>embed_res.
         case embed_verify vm (embed pv) (inner (eres_proof embed_res)) (riscv_vk (riscv_convert pv)) of
           Inr _ \<Rightarrow> Ret (Some (inner (eres_proof embed_res)))
         | Inl _ \<Rightarrow> Ret None))"

text \<open>One received message: the messages sent while handling it, and whether the loop goes on.\<close>

fun prover_handle ::
  "('pk, 'vk, 'r, 'p, 'e, 'o) pico_vm \<Rightarrow> ('pk, 'vk, 'o) prover \<Rightarrow> ('r, 'p, 'e) gateway_msg \<Rightarrow>
     (('r, 'p, 'e) gateway_msg list \<times> loop_ctl) outcome" where
  "prover_handle vm pv (Riscv (RiscvRequest req) task_id ip) =
     bind_outcome (riscv_convert_process vm (riscv_convert pv) req (vk_root pv)) (\<lambda>res.
       Ret ([Riscv (RiscvResponse res) task_id ip, RequestTask], Continue))"
| "prover_handle vm pv (Combine (CombineRequest req) task_id ip) =
     bind_outcome (combine_process vm (combine pv) req) (\<lambda>res.
       bind_outcome (if flag_complete req then finish_proof vm pv res else Ret None) (\<lambda>done_proof.
         case done_proof of
           Some ep \<Rightarrow> Ret ([Embed ep, Exit], Break)
         | None \<Rightarrow> Ret ([Combine (CombineResponse res) task_id ip, RequestTask], Continue)))"
| "prover_handle vm pv Exit = Ret ([], Break)"
| "prover_handle vm pv _ = Panic ''unsupported''"

section \<open>What a finished proof stands for\<close>

text \<open>The provers of a task, numbered as \<^verbatim>\<open>prove_task\<close> names them.\<close>

definition prover_at ::
  "('pk, 'vk, 'r, 'p, 'e, 'o) pico_vm \<Rightarrow> ('g, 'pk, 'vk) proving_task \<Rightarrow> nat \<Rightarrow> ('pk, 'vk, 'o) prover" where
  "prover_at vm task i = Prover_new vm (''prover-'' @ nat_to_string i) task"

text \<open>
  \<open>covers vm task recs p i k\<close>: the proof \<open>p\<close> is a combination tree whose leaves, from left
  to right, are the converted proofs of the emulation records \<open>i\<close> to \<open>k\<close>.
\<close>

inductive covers ::
  "('pk, 'vk, 'r, 'p, 'e, 'o) pico_vm \<Rightarrow> ('g, 'pk, 'vk) proving_task \<Rightarrow> 'r list \<Rightarrow> 'p \<Rightarrow> nat \<Rightarrow> nat \<Rightarrow> bool"
  for vm task recs where
  leaf: "i < length recs \<Longrightarrow>
     riscv_convert_process vm (riscv_convert (prover_at vm task w))
       \<lparr>rreq_chunk_index = of_nat i, rreq_record = recs ! i\<rparr> (get_vk_root vm) = Ret res \<Longrightarrow>
     covers vm task recs (inner (rres_proof res)) i i"
| node: "covers vm task recs a i j \<Longrightarrow> covers vm task recs b (Suc j) k \<Longrightarrow>
     vm_prove_two vm (vm_combine_machine vm) a b flag = Ret c \<Longrightarrow> covers vm task recs c i k"

lemma covers_range: "covers vm task recs p i k \<Longrightarrow> i \<le> k \<and> k < length recs"
  by (induction rule: covers.induct) auto

text \<open>\<open>embeds vm task p ep\<close>: compressing and embedding \<open>p\<close> gives \<open>ep\<close>, and \<open>ep\<close> verifies.\<close>

definition embeds ::
  "('pk, 'vk, 'r, 'p, 'e, 'o) pico_vm \<Rightarrow> ('g, 'pk, 'vk) proving_task \<Rightarrow> 'p \<Rightarrow> 'e \<Rightarrow> bool" where
  "embeds vm task p ep \<longleftrightarrow>
     bind_outcome (compress_prove vm (vm_compress_machine vm) p) (embed_prove vm (vm_embed_machine vm)) = Ret ep \<and>
     vm_embed_verify vm (vm_embed_machine vm) ep (task_vk task) = Inr ()"

lemmas prover_machines = prover_at_def Prover_new_def RiscvConvertProver_new_def CombineProver_new_def
  CompressProver_new_def EmbedProver_new_def

text \<open>Neither the prover's name nor the chunk labels influence the final proof.\<close>

lemma finish_proof_eq:
  "finish_proof vm (prover_at vm task i) res =
     bind_outcome (compress_prove vm (vm_compress_machine vm) (inner (cres_proof res))) (\<lambda>p.
       bind_outcome (embed_prove vm (vm_embed_machine vm) p) (\<lambda>ep.
         case vm_embed_verify vm (vm_embed_machine vm) ep (task_vk task) of
           Inr _ \<Rightarrow> Ret (Some ep) | Inl _ \<Rightarrow> Ret None))"
proof (cases "compress_prove vm (vm_compress_machine vm) (inner (cres_proof res))")
  case (Ret p)
  then show ?thesis
    by (cases "embed_prove vm (vm_embed_machine vm) p")
      (simp_all add: finish_proof_def compress_process_def embed_process_def embed_verify_def riscv_vk_def
        prover_machines get_inner_def Let_def split: sum.splits)
qed (simp add: finish_proof_def compress_process_def prover_machines get_inner_def)

lemma finish_proof_embeds:
  "finish_proof vm (prover_at vm task i) res = Ret (Some ep) \<longleftrightarrow> embeds vm task (inner (cres_proof res)) ep"
proof (cases "compress_prove vm (vm_compress_machine vm) (inner (cres_proof res))")
  case (Ret p)
  then show ?thesis
  proof (cases "embed_prove vm (vm_embed_machine vm) p")
    case (Ret e)
    with \<open>compress_prove _ _ _ = _\<close> show ?thesis
      by (cases "vm_embed_verify vm (vm_embed_machine vm) e (task_vk task)")
        (auto simp: finish_proof_eq embeds_def)
  qed (simp add: finish_proof_eq embeds_def)
qed (simp add: finish_proof_eq embeds_def)

section \<open>The contract of the prover loop\<close>

text \<open>
  What the gateway protocol relies on: a prover answers a conversion task for chunk \<open>k\<close> with
  a proof of chunk \<open>k\<close>, answers a combine task for two adjacent proofs with a proof of their
  union, or, when the task was flagged as the last one, with a verified embed proof of the
  union followed by \<^verbatim>\<open>Exit\<close>.
\<close>

locale prover_contract =
  fixes handle :: "nat \<Rightarrow> ('r, 'p, 'e) gateway_msg \<Rightarrow> (('r, 'p, 'e) gateway_msg list \<times> loop_ctl) outcome"
    and good :: "'p \<Rightarrow> nat \<Rightarrow> nat \<Rightarrow> bool"
    and final :: "'p \<Rightarrow> 'e \<Rightarrow> bool"
    and recs :: "'r list"
  assumes riscv_answer: "handle i (Riscv (RiscvRequest q) tid ip) = Ret (out, ctl) \<Longrightarrow>
      \<exists>p. ctl = Continue \<and>
        out = [Riscv (RiscvResponse \<lparr>rres_chunk_index = rreq_chunk_index q,
                 rres_proof = IndexedProof_new p (rreq_chunk_index q) (rreq_chunk_index q)\<rparr>) tid ip, RequestTask] \<and>
        (unat (rreq_chunk_index q) < length recs \<longrightarrow> rreq_record q = recs ! unat (rreq_chunk_index q) \<longrightarrow>
           good p (unat (rreq_chunk_index q)) (unat (rreq_chunk_index q)))"
    and combine_answer: "handle i (Combine (CombineRequest cq) tid ip) = Ret (out, ctl) \<Longrightarrow>
      creq_proofs cq = [a, b] \<Longrightarrow> adjacent a b \<Longrightarrow>
      \<exists>p. (good (inner a) (unat (start_chunk a)) (unat (end_chunk a)) \<longrightarrow>
           good (inner b) (unat (start_chunk b)) (unat (end_chunk b)) \<longrightarrow>
           good p (unat (start_chunk a)) (unat (end_chunk b))) \<and>
        (ctl = Continue \<and> \<not> (flag_complete cq \<and> (\<exists>ep. final p ep)) \<and>
           out = [Combine (CombineResponse \<lparr>cres_chunk_index = creq_chunk_index cq,
                    cres_proof = IndexedProof_new p (start_chunk a) (end_chunk b)\<rparr>) tid ip, RequestTask]
         \<or> (\<exists>ep. ctl = Break \<and> flag_complete cq \<and> final p ep \<and> out = [Embed ep, Exit]))"
    and good_range: "good p j k \<Longrightarrow> j \<le> k \<and> k < length recs"
begin

end

text \<open>Enough for the answers of a prover to exist: no call into pico-vm panics.\<close>

definition vm_returns :: "('pk, 'vk, 'r, 'p, 'e, 'o) pico_vm \<Rightarrow> bool" where
  "vm_returns vm \<longleftrightarrow>
     2 \<le> vm_combine_size vm \<and>
     (\<forall>m k pk c s r. returns (vm_prove_record vm m k pk c s r)) \<and>
     (\<forall>m k w. returns (vm_prove_with_index vm m k w)) \<and>
     (\<forall>m a b f. returns (vm_prove_two vm m a b f)) \<and>
     (\<forall>m w. returns (vm_prove vm m w)) \<and>
     (\<forall>m w. returns (vm_embed_prove vm m w)) \<and>
     (\<forall>p c w. \<exists>r. vm_runtime vm p c w = Inr r)"

lemma adjacent_word: "adjacent a b \<Longrightarrow> end_chunk a + 1 = start_chunk b"
proof -
  assume "adjacent a b"
  then have s: "unat (start_chunk b) = Suc (unat (end_chunk a))" by (simp add: adjacent_def)
  then have "unat (end_chunk a) < unat (start_chunk b)" by simp
  then have "unat (end_chunk a + 1) = unat (start_chunk b)" using s unat_Suc_usize [of "end_chunk a" "start_chunk b"] by simp
  then show ?thesis by (rule unsigned_word_eqI)
qed

lemma prover_at_simps:
  "riscv_convert (prover_at vm task i) = RiscvConvertProver_new vm (''prover-'' @ nat_to_string i) task"
  "cp_machine (combine (prover_at vm task i)) = vm_combine_machine vm"
  "vk_root (prover_at vm task i) = get_vk_root vm"
  by (simp_all add: prover_machines)

lemma riscv_handle_cases:
  assumes "prover_handle vm (prover_at vm task i) (Riscv (RiscvRequest q) tid ip) = Ret (out, ctl)"
  shows "\<exists>p. ctl = Continue \<and>
    out = [Riscv (RiscvResponse \<lparr>rres_chunk_index = rreq_chunk_index q,
             rres_proof = IndexedProof_new p (rreq_chunk_index q) (rreq_chunk_index q)\<rparr>) tid ip, RequestTask] \<and>
    (unat (rreq_chunk_index q) < length recs \<longrightarrow> rreq_record q = recs ! unat (rreq_chunk_index q) \<longrightarrow>
       covers vm task recs p (unat (rreq_chunk_index q)) (unat (rreq_chunk_index q)))"
proof -
  from assms obtain res where
    res: "riscv_convert_process vm (riscv_convert (prover_at vm task i)) q (get_vk_root vm) = Ret res"
    and out: "ctl = Continue" "out = [Riscv (RiscvResponse res) tid ip, RequestTask]"
    by (auto simp: bind_outcome_eq_Ret prover_at_simps(3))
  from res obtain p where p: "res = \<lparr>rres_chunk_index = rreq_chunk_index q,
      rres_proof = IndexedProof_new p (rreq_chunk_index q) (rreq_chunk_index q)\<rparr>"
    by (auto simp: riscv_convert_process_def bind_outcome_eq_Ret Let_def)
  have "covers vm task recs (inner (rres_proof res)) (unat (rreq_chunk_index q)) (unat (rreq_chunk_index q))"
    if "unat (rreq_chunk_index q) < length recs" and "rreq_record q = recs ! unat (rreq_chunk_index q)"
  proof (rule covers.leaf [OF that(1)])
    have "q = \<lparr>rreq_chunk_index = of_nat (unat (rreq_chunk_index q)), rreq_record = recs ! unat (rreq_chunk_index q)\<rparr>"
      using that(2) by (cases q) simp
    with res show "riscv_convert_process vm (riscv_convert (prover_at vm task i))
        \<lparr>rreq_chunk_index = of_nat (unat (rreq_chunk_index q)), rreq_record = recs ! unat (rreq_chunk_index q)\<rparr>
        (get_vk_root vm) = Ret res" by simp
  qed
  with p out show ?thesis by auto
qed

lemma combine_handle_cases:
  assumes h: "prover_handle vm (prover_at vm task i) (Combine (CombineRequest q) tid ip) = Ret (out, ctl)"
    and q: "creq_proofs q = [a, b]"
  shows "\<exists>p. vm_prove_two vm (vm_combine_machine vm) (inner a) (inner b) (flag_complete q) = Ret p \<and>
    (ctl = Continue \<and> \<not> (flag_complete q \<and> (\<exists>ep. embeds vm task p ep)) \<and>
       out = [Combine (CombineResponse \<lparr>cres_chunk_index = creq_chunk_index q,
                cres_proof = IndexedProof_new p (start_chunk a) (end_chunk b)\<rparr>) tid ip, RequestTask]
     \<or> (\<exists>ep. ctl = Break \<and> flag_complete q \<and> embeds vm task p ep \<and> out = [Embed ep, Exit]))"
proof -
  let ?pv = "prover_at vm task i"
  from h obtain res d where res: "combine_process vm (combine ?pv) q = Ret res"
    and d: "(if flag_complete q then finish_proof vm ?pv res else Ret None) = Ret d"
    and out: "(case d of Some ep \<Rightarrow> Ret ([Embed ep, Exit], Break)
       | None \<Rightarrow> Ret ([Combine (CombineResponse res) tid ip, RequestTask], Continue)) = Ret (out, ctl)"
    by (auto simp: bind_outcome_eq_Ret)
  from res q obtain p where p: "vm_prove_two vm (vm_combine_machine vm) (inner a) (inner b) (flag_complete q) = Ret p"
    and r: "res = \<lparr>cres_chunk_index = creq_chunk_index q, cres_proof = IndexedProof_new p (start_chunk a) (end_chunk b)\<rparr>"
    by (auto simp: combine_process_def bind_outcome_eq_Ret get_inner_def prover_at_simps split: if_splits)
  show ?thesis
  proof (cases d)
    case None
    with d finish_proof_embeds [of vm task i res] r have "\<not> (flag_complete q \<and> (\<exists>ep. embeds vm task p ep))"
      by (auto split: if_splits)
    with None out p r show ?thesis by auto
  next
    case (Some ep)
    with d finish_proof_embeds [of vm task i res ep] r have "flag_complete q" "embeds vm task p ep"
      by (auto split: if_splits)
    with Some out p show ?thesis by auto
  qed
qed

interpretation pw: prover_contract "\<lambda>i. prover_handle vm (prover_at vm task i)" "covers vm task recs"
  "embeds vm task" recs for vm task recs
proof unfold_locales
  fix i q tid ip out ctl
  assume "prover_handle vm (prover_at vm task i) (Riscv (RiscvRequest q) tid ip) = Ret (out, ctl)"
  then show "\<exists>p. ctl = Continue \<and>
    out = [Riscv (RiscvResponse \<lparr>rres_chunk_index = rreq_chunk_index q,
             rres_proof = IndexedProof_new p (rreq_chunk_index q) (rreq_chunk_index q)\<rparr>) tid ip, RequestTask] \<and>
    (unat (rreq_chunk_index q) < length recs \<longrightarrow> rreq_record q = recs ! unat (rreq_chunk_index q) \<longrightarrow>
       covers vm task recs p (unat (rreq_chunk_index q)) (unat (rreq_chunk_index q)))"
    by (rule riscv_handle_cases)
next
  fix i q tid ip out ctl a b
  assume h: "prover_handle vm (prover_at vm task i) (Combine (CombineRequest q) tid ip) = Ret (out, ctl)"
    and q: "creq_proofs q = [a, b]" and adj: "adjacent a b"
  from combine_handle_cases [OF h q] obtain p
    where p: "vm_prove_two vm (vm_combine_machine vm) (inner a) (inner b) (flag_complete q) = Ret p"
    and cs: "ctl = Continue \<and> \<not> (flag_complete q \<and> (\<exists>ep. embeds vm task p ep)) \<and>
       out = [Combine (CombineResponse \<lparr>cres_chunk_index = creq_chunk_index q,
                cres_proof = IndexedProof_new p (start_chunk a) (end_chunk b)\<rparr>) tid ip, RequestTask]
     \<or> (\<exists>ep. ctl = Break \<and> flag_complete q \<and> embeds vm task p ep \<and> out = [Embed ep, Exit])"
    by (elim exE conjE) (rule that)
  have "covers vm task recs p (unat (start_chunk a)) (unat (end_chunk b))"
    if "covers vm task recs (inner a) (unat (start_chunk a)) (unat (end_chunk a))"
      "covers vm task recs (inner b) (unat (start_chunk b)) (unat (end_chunk b))"
    using that p adj by (auto simp: adjacent_def intro: covers.node)
  with cs show "\<exists>p. (covers vm task recs (inner a) (unat (start_chunk a)) (unat (end_chunk a)) \<longrightarrow>
           covers vm task recs (inner b) (unat (start_chunk b)) (unat (end_chunk b)) \<longrightarrow>
           covers vm task recs p (unat (start_chunk a)) (unat (end_chunk b))) \<and>
        (ctl = Continue \<and> \<not> (flag_complete q \<and> (\<exists>ep. embeds vm task p ep)) \<and>
           out = [Combine (CombineResponse \<lparr>cres_chunk_index = creq_chunk_index q,
                    cres_proof = IndexedProof_new p (start_chunk a) (end_chunk b)\<rparr>) tid ip, RequestTask]
         \<or> (\<exists>ep. ctl = Break \<and> flag_complete q \<and> embeds vm task p ep \<and> out = [Embed ep, Exit]))"
    by blast
qed (rule covers_range)

end
