(* ===== verification/Emulator.thy ===== *)
theory Emulator
  imports Messages Proving_Task
begin

text \<open>
  The emulator side of a proving task (\<^verbatim>\<open>src/proving/emulator.rs\<close>): the emulator thread that
  produces records batch by batch until the program is done, and the loop that numbers the
  records and sends them to the gateway, followed by \<^verbatim>\<open>EmulatorComplete\<close>. The record channel
  between the two threads is bounded (its capacity only delays the emulator thread) and
  keeps the order. A program may run forever: the thread's result is then \<^const>\<open>None\<close>; the
  emulator may also panic in the middle of a batch.
\<close>

record ('g, 'r, 'o) emulator_lib =
  el_new_builder :: 'o
  el_deserialize :: "bytes \<Rightarrow> string + 'o"
  el_finalize :: "'o \<Rightarrow> 'o"
  el_setup_keys :: "'g \<Rightarrow> 'o"
  el_witness :: "'g \<Rightarrow> 'o \<Rightarrow> 'o \<Rightarrow> 'o"
  el_emulator :: "'o \<Rightarrow> 'o"
  el_next_record_batch :: "'o \<Rightarrow> 'r list \<times> (bool \<times> 'o) outcome"
    \<comment> \<open>the records passed to the callback, then \<^verbatim>\<open>report.done\<close> and the emulator, or a panic\<close>

text \<open>
  The emulator thread: all records in order, up to the batch that reports \<^verbatim>\<open>done\<close> or panics, and
  the panic, which \<^verbatim>\<open>join\<close> hands to the thread that waits for it.
\<close>

partial_function (option) emulator_thread ::
  "('o \<Rightarrow> 'r list \<times> (bool \<times> 'o) outcome) \<Rightarrow> 'o \<Rightarrow> ('r list \<times> string option) option" where
  "emulator_thread next_batch em =
     (case next_batch em of (rs, report) \<Rightarrow>
        (case report of
           Panic m \<Rightarrow> Some (rs, Some m)
         | Ret (is_done, em') \<Rightarrow>
             if is_done then Some (rs, None)
             else Option.bind (emulator_thread next_batch em') (\<lambda>(rest, p). Some (rs @ rest, p))))"

definition riscv_task :: "usize \<Rightarrow> 'r \<Rightarrow> ('r, 'p, 'e) gateway_msg" where
  "riscv_task chunk_index r =
     Riscv (RiscvRequest \<lparr>rreq_chunk_index = chunk_index, rreq_record = r\<rparr>) (usize_to_string chunk_index) ''''"

fun send_records :: "usize \<Rightarrow> 'r list \<Rightarrow> ('r, 'p, 'e) gateway_msg list" where
  "send_records chunk_index [] = []"
| "send_records chunk_index (r # rs) = riscv_task chunk_index r # send_records (chunk_index + 1) rs"

definition emulator_setup ::
  "('g, 'r, 'o) emulator_lib \<Rightarrow> ('g, 'pk, 'vk) proving_task \<Rightarrow> 'o outcome" where
  "emulator_setup lib task =
     (case (case task_inputs task of None \<Rightarrow> Inr (el_new_builder lib) | Some bs \<Rightarrow> el_deserialize lib bs) of
        Inl err \<Rightarrow> Panic ''called `Result::unwrap()` on an `Err` value''
      | Inr stdin_builder \<Rightarrow>
          (let stdin = el_finalize lib stdin_builder;
               keys = el_setup_keys lib (task_program task);
               witness = el_witness lib (task_program task) stdin keys
           in Ret (el_emulator lib witness)))"

text \<open>
  The messages sent to the gateway and the panic of \<^verbatim>\<open>run\<close>, if any. A panic of the emulator
  thread closes the record channel, so the loop ends and \<^verbatim>\<open>EmulatorComplete\<close> is sent before
  \<^verbatim>\<open>emulator_handle.join().unwrap()\<close> panics.
\<close>

definition emulator_run ::
  "('g, 'r, 'o) emulator_lib \<Rightarrow> ('g, 'pk, 'vk) proving_task \<Rightarrow>
     (('r, 'p, 'e) gateway_msg list \<times> string option) option" where
  "emulator_run lib task =
     (case emulator_setup lib task of
        Panic m \<Rightarrow> Some ([], Some m)
      | Ret em \<Rightarrow>
          Option.bind (emulator_thread (el_next_record_batch lib) em) (\<lambda>(recs, p).
            Some (send_records 0 recs @ [EmulatorComplete],
                  map_option (\<lambda>_. ''called `Result::unwrap()` on an `Err` value'') p)))"

section \<open>Lemmas\<close>

lemma msg_flight_riscv_task [simp]: "msg_flight (riscv_task k r) = {#(k, k, k)#}"
  by (simp add: riscv_task_def)

lemma length_send_records [simp]: "length (send_records k rs) = length rs"
  by (induction rs arbitrary: k) auto

lemma send_records_nth: "i < length rs \<Longrightarrow> send_records k rs ! i = riscv_task (k + of_nat i) (rs ! i)"
proof (induction rs arbitrary: k i)
  case (Cons r rs)
  then show ?case by (cases i) (auto simp: algebra_simps)
qed simp

text \<open>Emulations that end: with the batch that reports \<^verbatim>\<open>done\<close>, or with a panic.\<close>

inductive emulation :: "('o \<Rightarrow> 'r list \<times> (bool \<times> 'o) outcome) \<Rightarrow> 'o \<Rightarrow> 'r list \<Rightarrow> string option \<Rightarrow> bool"
  for f where
  em_done: "f em = (rs, Ret (True, em')) \<Longrightarrow> emulation f em rs None"
| em_panic: "f em = (rs, Panic m) \<Longrightarrow> emulation f em rs (Some m)"
| em_batch: "f em = (rs, Ret (False, em')) \<Longrightarrow> emulation f em' rest p \<Longrightarrow> emulation f em (rs @ rest) p"

lemma emulator_thread_emulates:
  assumes "emulator_thread f em = Some y"
  shows "emulation f em (fst y) (snd y)"
proof (rule emulator_thread.raw_induct [where P = "\<lambda>f em y. emulation f em (fst y) (snd y)", OF _ assms])
  fix thread f em y
  assume IH: "\<And>f em y. thread f em = Some y \<Longrightarrow> emulation f em (fst y) (snd y)"
    and body: "(case f em of (rs, report) \<Rightarrow> (case report of
           Panic m \<Rightarrow> Some (rs, Some m)
         | Ret (is_done, em') \<Rightarrow>
             if is_done then Some (rs, None)
             else Option.bind (thread f em') (\<lambda>(rest, p). Some (rs @ rest, p)))) = Some y"
  obtain rs report where f: "f em = (rs, report)" by (cases "f em")
  show "emulation f em (fst y) (snd y)"
  proof (cases report)
    case (Panic m)
    with body f show ?thesis by (auto intro: em_panic)
  next
    case (Ret r)
    then obtain is_done em' where r: "report = Ret (is_done, em')" by (cases r) auto
    with body f show ?thesis
      by (cases is_done) (auto simp: bind_eq_Some_conv intro: em_done em_batch dest!: IH)
  qed
qed

lemma emulation_thread: "emulation f em recs p \<Longrightarrow> emulator_thread f em = Some (recs, p)"
  by (induction rule: emulation.induct) (subst emulator_thread.simps, simp)+

lemma emulator_thread_iff: "emulator_thread f em = Some (recs, p) \<longleftrightarrow> emulation f em recs p"
  using emulator_thread_emulates [of f em "(recs, p)"] emulation_thread by auto

lemma send_records_map: "send_records k rs = map (\<lambda>i. riscv_task (k + of_nat i) (rs ! i)) [0..<length rs]"
  by (rule nth_equalityI) (simp_all add: send_records_nth)

text \<open>A library for witnesses: the state counts down, a batch has the records 2 n and 2 n + 1.\<close>

definition demo_emulator :: "(unit, nat, nat) emulator_lib" where
  "demo_emulator = \<lparr>el_new_builder = 1, el_deserialize = (\<lambda>bs. if bs = [] then Inl ''eof'' else Inr (unat (hd bs))),
     el_finalize = (\<lambda>b. b), el_setup_keys = (\<lambda>g. 0), el_witness = (\<lambda>g b k. b), el_emulator = (\<lambda>w. w),
     el_next_record_batch = (\<lambda>n. ([2 * n, 2 * n + 1], Ret (n = 0, n - 1)))\<rparr>"

lemma demo_emulation: "emulation (el_next_record_batch demo_emulator) 1 [2, 3, 0, 1] None"
proof -
  let ?f = "el_next_record_batch demo_emulator"
  have "?f 1 = ([2, 3], Ret (False, 0))" "?f 0 = ([0, 1], Ret (True, 0))" by (simp_all add: demo_emulator_def)
  then have "emulation ?f 1 ([2, 3] @ [0, 1]) None" by (intro em_batch em_done)
  then show ?thesis by simp
qed

section \<open>Properties\<close>

text \<open>
  C23. The gateway receives every record exactly once, numbered from 0 in the order of
  emulation, and then \<^verbatim>\<open>EmulatorComplete\<close>. The emulator side of a task ends exactly when the emulation
  of the program ends, it has then sent these messages, and it panics exactly when the emulation
  did; an emulation that never ends gives no result.
\<close>

theorem emulator_sends_all:
  assumes "emulator_setup lib task = Ret em"
  shows "emulator_run lib task = Some (msgs, q) \<longleftrightarrow>
    (\<exists>recs p. emulation (el_next_record_batch lib) em recs p \<and>
      msgs = map (\<lambda>i. riscv_task (of_nat i) (recs ! i)) [0..<length recs] @ [EmulatorComplete] \<and>
      q = map_option (\<lambda>_. ''called `Result::unwrap()` on an `Err` value'') p)"
  using assms by (auto simp: emulator_run_def send_records_map bind_eq_Some_conv emulator_thread_iff)

theorem emulator_sends_all_witness:
  "emulator_run demo_emulator \<lparr>task_key = ProvingKey_new ''a'' ''t'', task_program = (), task_pk = (), task_vk = (),
     task_inputs = None, use_gpu = False\<rparr> =
   Some ([riscv_task 0 2, riscv_task 1 3, riscv_task 2 0, riscv_task 3 1, EmulatorComplete], None)"
proof -
  have e: "emulator_setup demo_emulator \<lparr>task_key = ProvingKey_new ''a'' ''t'', task_program = (), task_pk = (),
      task_vk = (), task_inputs = None, use_gpu = False\<rparr> = Ret 1"
    by (simp add: emulator_setup_def demo_emulator_def)
  show ?thesis
    unfolding emulator_sends_all [OF e]
    using demo_emulation by (intro exI [of _ "[2, 3, 0, 1]"] exI [of _ None]) (simp add: upt_conv_Cons)
qed

end
