(* ===== verification/Proving.thy ===== *)
theory Proving
  imports Worker Emulator
begin

text \<open>
  A proving task as a whole (\<^verbatim>\<open>src/proving/mod.rs\<close>, \<^verbatim>\<open>prove_task\<close>): emulator, gateway and any number
  of provers run concurrently and communicate through unbounded first-in first-out
  channels. The step relation \<open>psys_step\<close> interleaves them: one rule per action of a
  participant. Emulator messages take precedence in the gateway (\<^verbatim>\<open>select_biased!\<close>). The
  channels stay open while the task runs, because \<^verbatim>\<open>prove_task\<close> holds both ends of each; a
  panic ends the participant it occurs in.
\<close>

section \<open>States\<close>

datatype run_status = Running | Stopped | Crashed

datatype 'm prover_state = Starting | Waiting | Busy 'm | Exited | Dead

record ('r, 'p, 'e) psys =
  s_pending :: "'r list" \<comment> \<open>records the emulator has not sent yet\<close>
  s_index :: usize \<comment> \<open>the emulator's \<^verbatim>\<open>chunk_index\<close>\<close>
  s_done :: bool \<comment> \<open>\<^verbatim>\<open>EmulatorComplete\<close> has been sent\<close>
  s_emu :: "('r, 'p, 'e) gateway_msg list" \<comment> \<open>emulator to gateway\<close>
  s_gw :: "('p, 'e) gateway"
  s_run :: run_status \<comment> \<open>of the gateway loop\<close>
  s_to_provers :: "('r, 'p, 'e) gateway_msg list"
  s_to_gw :: "('r, 'p, 'e) gateway_msg list"
  s_provers :: "('r, 'p, 'e) gateway_msg prover_state list"

definition psys_init :: "'r list \<Rightarrow> nat \<Rightarrow> ('r, 'p, 'e) psys" where
  "psys_init recs prover_count =
     \<lparr>s_pending = recs, s_index = 0, s_done = False, s_emu = [], s_gw = gateway_new, s_run = Running,
      s_to_provers = [], s_to_gw = [], s_provers = replicate prover_count Starting\<rparr>"

definition run_after :: "loop_ctl \<Rightarrow> run_status" where
  "run_after ctl = (case ctl of Continue \<Rightarrow> Running | Break \<Rightarrow> Stopped)"

definition prover_after :: "loop_ctl \<Rightarrow> 'm prover_state" where
  "prover_after ctl = (case ctl of Continue \<Rightarrow> Waiting | Break \<Rightarrow> Exited)"

section \<open>Steps\<close>

inductive psys_step ::
  "(nat \<Rightarrow> ('r, 'p, 'e) gateway_msg \<Rightarrow> (('r, 'p, 'e) gateway_msg list \<times> loop_ctl) outcome) \<Rightarrow>
   ('e \<Rightarrow> (string + bytes) outcome) \<Rightarrow> ('r, 'p, 'e) psys \<Rightarrow> ('r, 'p, 'e) psys \<Rightarrow> bool"
  for handle onchain where
  emu_send: "s_pending s = r # rs \<Longrightarrow>
     psys_step handle onchain s
       (s\<lparr>s_pending := rs, s_index := s_index s + 1, s_emu := s_emu s @ [riscv_task (s_index s) r]\<rparr>)"
| emu_finish: "s_pending s = [] \<Longrightarrow> \<not> s_done s \<Longrightarrow>
     psys_step handle onchain s (s\<lparr>s_done := True, s_emu := s_emu s @ [EmulatorComplete]\<rparr>)"
| gw_emu: "s_run s = Running \<Longrightarrow> s_emu s = x # xs \<Longrightarrow>
     gateway_on_emulator (Some x) (s_gw s) = Ret (g, out, ctl) \<Longrightarrow>
     psys_step handle onchain s
       (s\<lparr>s_emu := xs, s_gw := g, s_to_provers := s_to_provers s @ out, s_run := run_after ctl\<rparr>)"
| gw_emu_panic: "s_run s = Running \<Longrightarrow> s_emu s = x # xs \<Longrightarrow>
     gateway_on_emulator (Some x) (s_gw s) = (Panic msg :: ('r, 'p, 'e) gateway_result) \<Longrightarrow>
     psys_step handle onchain s (s\<lparr>s_emu := xs, s_run := Crashed\<rparr>)"
| gw_prover: "s_run s = Running \<Longrightarrow> s_emu s = [] \<Longrightarrow> s_to_gw s = x # xs \<Longrightarrow>
     gateway_on_prover onchain (Some x) (s_gw s) = Ret (g, out, ctl) \<Longrightarrow>
     psys_step handle onchain s
       (s\<lparr>s_to_gw := xs, s_gw := g, s_to_provers := s_to_provers s @ out, s_run := run_after ctl\<rparr>)"
| gw_prover_panic: "s_run s = Running \<Longrightarrow> s_emu s = [] \<Longrightarrow> s_to_gw s = x # xs \<Longrightarrow>
     gateway_on_prover onchain (Some x) (s_gw s) = (Panic msg :: ('r, 'p, 'e) gateway_result) \<Longrightarrow>
     psys_step handle onchain s (s\<lparr>s_to_gw := xs, s_run := Crashed\<rparr>)"
| p_start: "s_provers s = ps @ Starting # qs \<Longrightarrow>
     psys_step handle onchain s (s\<lparr>s_provers := ps @ Waiting # qs, s_to_gw := s_to_gw s @ prover_start\<rparr>)"
| p_recv: "s_provers s = ps @ Waiting # qs \<Longrightarrow> s_to_provers s = x # xs \<Longrightarrow>
     psys_step handle onchain s (s\<lparr>s_provers := ps @ Busy x # qs, s_to_provers := xs\<rparr>)"
| p_answer: "s_provers s = ps @ Busy x # qs \<Longrightarrow> handle (length ps) x = Ret (out, ctl) \<Longrightarrow>
     psys_step handle onchain s (s\<lparr>s_provers := ps @ prover_after ctl # qs, s_to_gw := s_to_gw s @ out\<rparr>)"
| p_panic: "s_provers s = ps @ Busy x # qs \<Longrightarrow> handle (length ps) x = Panic msg \<Longrightarrow>
     psys_step handle onchain s (s\<lparr>s_provers := ps @ Dead # qs\<rparr>)"

text \<open>The provers of a task, and the runs of its system.\<close>

definition task_handle ::
  "('pk, 'vk, 'r, 'p, 'e, 'o) pico_vm \<Rightarrow> ('g, 'pk, 'vk) proving_task \<Rightarrow> nat \<Rightarrow> ('r, 'p, 'e) gateway_msg \<Rightarrow>
     (('r, 'p, 'e) gateway_msg list \<times> loop_ctl) outcome" where
  "task_handle vm task i = prover_handle vm (prover_at vm task i)"

abbreviation psys_steps where
  "psys_steps handle onchain \<equiv> (psys_step handle onchain)\<^sup>*\<^sup>*"

text \<open>
  \<^verbatim>\<open>prove_task\<close>: with \<^verbatim>\<open>use_gpu\<close> and a prover to start, \<^verbatim>\<open>new_cuda\<close> panics; a failing emulator setup
  (inputs that do not deserialise) panics too. Otherwise the task runs as the system above on
  the records of the emulator thread (\<^const>\<open>None\<close> when the program never ends); the second component
  is the panic of that thread, if any. The emulator runs inside \<^verbatim>\<open>prove_task\<close>: after it has sent
  everything, a panic of its thread panics in \<^verbatim>\<open>prove_task\<close>. Otherwise \<^verbatim>\<open>prove_task\<close> waits for the
  completion channel: it returns what the gateway sends through it, an error when the sender is
  dropped. The joins after the completion signal are bounded by timeouts and do not change the
  result.
\<close>

definition prove_task_start ::
  "('pk, 'vk, 'r, 'p, 'e, 'o) pico_vm \<Rightarrow> ('g, 'r, 'm) emulator_lib \<Rightarrow> ('g, 'pk, 'vk) proving_task \<Rightarrow> nat \<Rightarrow>
     (('r, 'p, 'e) psys \<times> string option) outcome option" where
  "prove_task_start vm lib task prover_count =
     (case (if use_gpu task \<and> 0 < prover_count
            then bind_outcome (Prover_new_cuda vm ''prover-0'' task) Prover_run_cuda else Ret ()) of
        Panic m \<Rightarrow> Some (Panic m)
      | Ret _ \<Rightarrow>
          (case emulator_setup lib task of
             Panic m \<Rightarrow> Some (Panic m)
           | Ret em \<Rightarrow> map_option (\<lambda>(recs, p). Ret (psys_init recs prover_count, p))
                         (emulator_thread (el_next_record_batch lib) em)))"

definition prove_task_result :: "('r, 'p, 'e) psys \<Rightarrow> (string + bytes) option" where
  "prove_task_result s =
     (if \<not> s_done s then None
      else case completion (s_gw s) of
        Some bs \<Rightarrow> Some (Inr bs)
      | None \<Rightarrow> (case s_run s of Running \<Rightarrow> None | _ \<Rightarrow> Some (Inl ''channel closed'')))"

text \<open>What a call of \<^verbatim>\<open>prove_task\<close> can return, over all interleavings, and when it panics.\<close>

definition prove_task_returns ::
  "('pk, 'vk, 'r, 'p, 'e, 'o) pico_vm \<Rightarrow> ('g, 'r, 'm) emulator_lib \<Rightarrow> ('e \<Rightarrow> (string + bytes) outcome) \<Rightarrow>
     ('g, 'pk, 'vk) proving_task \<Rightarrow> nat \<Rightarrow> string + bytes \<Rightarrow> bool" where
  "prove_task_returns vm lib onchain task prover_count r \<longleftrightarrow>
     (\<exists>s0 s. prove_task_start vm lib task prover_count = Some (Ret (s0, None)) \<and>
        psys_steps (task_handle vm task) onchain s0 s \<and> prove_task_result s = Some r)"

definition prove_task_panics ::
  "('pk, 'vk, 'r, 'p, 'e, 'o) pico_vm \<Rightarrow> ('g, 'r, 'm) emulator_lib \<Rightarrow> ('g, 'pk, 'vk) proving_task \<Rightarrow> nat \<Rightarrow> string \<Rightarrow> bool" where
  "prove_task_panics vm lib task prover_count m \<longleftrightarrow>
     (case (prove_task_start vm lib task prover_count :: (('r, 'p, 'e) psys \<times> string option) outcome option) of
        Some (Panic m') \<Rightarrow> m' = m
      | Some (Ret (_, Some _)) \<Rightarrow> m = ''called `Result::unwrap()` on an `Err` value''
      | _ \<Rightarrow> False)"

end
