(* ===== verification/Proving_Safety.thy ===== *)
theory Proving_Safety
  imports Proving
begin

text \<open>
  Safety of a proving task: the invariant of the interleaved system. Every task and result
  under way corresponds to exactly one tree node in progress (the ledger of flights), every
  proof covers exactly the chunks it is labelled with, and a completion carries a verified
  embed proof of chunks 0 to some \<open>j\<close>. The lemmas are proved once over the contract of the
  prover loop and instantiated with the real provers at the end.
\<close>

section \<open>What is under way\<close>

fun prover_msgs :: "'m prover_state \<Rightarrow> 'm list" where
  "prover_msgs (Busy x) = [x]"
| "prover_msgs _ = []"

definition task_msgs :: "('r, 'p, 'e) psys \<Rightarrow> ('r, 'p, 'e) gateway_msg list" where
  "task_msgs s = s_to_provers s @ concat (map prover_msgs (s_provers s))"

definition flights :: "('r, 'p, 'e) psys \<Rightarrow> flight multiset" where
  "flights s = sum_list (map msg_flight (task_msgs s @ s_to_gw s))"

abbreviation sys_handler :: "('r, 'p, 'e) psys \<Rightarrow> ('p, 'e) gateway_handler" where
  "sys_handler s \<equiv> gw_handler (s_gw s)"

definition all_proofs :: "('r, 'p, 'e) psys \<Rightarrow> 'p indexed_proof set" where
  "all_proofs s = tree_proofs (proof_tree (sys_handler s)) \<union> (\<Union>x \<in> set (task_msgs s @ s_to_gw s). msg_proofs x)"

text \<open>An \<^verbatim>\<open>Exit\<close> waits behind an embed proof.\<close>

fun exit_guarded :: "('r, 'p, 'e) gateway_msg list \<Rightarrow> bool" where
  "exit_guarded [] = True"
| "exit_guarded (Embed _ # ms) = True"
| "exit_guarded (Exit # ms) = False"
| "exit_guarded (_ # ms) = exit_guarded ms"

section \<open>The invariant\<close>

fun task_ok :: "'r list \<Rightarrow> ('r, 'p, 'e) gateway_msg \<Rightarrow> bool" where
  "task_ok recs (Riscv (RiscvRequest q) _ _) \<longleftrightarrow>
     unat (rreq_chunk_index q) < length recs \<and> rreq_record q = recs ! unat (rreq_chunk_index q)"
| "task_ok recs (Combine (CombineRequest q) _ _) \<longleftrightarrow>
     (\<exists>a b. creq_proofs q = [a, b] \<and> adjacent a b \<and> (flag_complete q \<longrightarrow> unat (start_chunk a) = 0) \<and>
        (unat (start_chunk a) = 0 \<longrightarrow> Suc (unat (end_chunk b)) = length recs \<longrightarrow> flag_complete q))"
| "task_ok recs _ \<longleftrightarrow> False"

text \<open>Verification accepts the proof of a complete run of at least two chunks.\<close>

definition accepting :: "('p \<Rightarrow> nat \<Rightarrow> nat \<Rightarrow> bool) \<Rightarrow> ('p \<Rightarrow> 'e \<Rightarrow> bool) \<Rightarrow> 'r list \<Rightarrow> bool" where
  "accepting good final recs \<longleftrightarrow> 2 \<le> length recs \<and> (\<forall>p. good p 0 (length recs - 1) \<longrightarrow> (\<exists>ep. final p ep))"

definition proof_ok :: "('p \<Rightarrow> nat \<Rightarrow> nat \<Rightarrow> bool) \<Rightarrow> ('p \<Rightarrow> 'e \<Rightarrow> bool) \<Rightarrow> 'r list \<Rightarrow> 'p indexed_proof \<Rightarrow> bool" where
  "proof_ok good final recs p \<longleftrightarrow>
     good (inner p) (unat (start_chunk p)) (unat (end_chunk p)) \<and>
     (accepting good final recs \<longrightarrow> \<not> (unat (start_chunk p) = 0 \<and> Suc (unat (end_chunk p)) = length recs))"

definition embed_ok :: "('p \<Rightarrow> nat \<Rightarrow> nat \<Rightarrow> bool) \<Rightarrow> ('p \<Rightarrow> 'e \<Rightarrow> bool) \<Rightarrow> 'e \<Rightarrow> bool" where
  "embed_ok good final e \<longleftrightarrow> (\<exists>p j. final p e \<and> good p 0 j \<and> 0 < j)"

definition emu_inv :: "'r list \<Rightarrow> ('r, 'p, 'e) psys \<Rightarrow> nat \<Rightarrow> bool" where
  "emu_inv recs s m \<longleftrightarrow> m \<le> length recs \<and> (s_done s \<longrightarrow> s_pending s = []) \<and>
     (\<exists>reqs tail. s_emu s = reqs @ tail \<and> (tail = [] \<or> tail = [EmulatorComplete] \<and> s_done s) \<and>
        reqs @ send_records (s_index s) (s_pending s) = send_records (of_nat m) (drop m recs))"

definition gw_inv :: "('r, 'p, 'e) psys \<Rightarrow> nat \<Rightarrow> bool" where
  "gw_inv s m \<longleftrightarrow> handler_inv (sys_handler s) m \<and> embed_proof (sys_handler s) = None \<and>
     completion (s_gw s) = None \<and> completion_sender (s_gw s) \<and> exit_guarded (s_to_gw s) \<and>
     flights s \<subseteq># handler_flights (sys_handler s) \<and>
     ((\<forall>e. Embed e \<notin> set (s_to_gw s)) \<and> Dead \<notin> set (s_provers s) \<longrightarrow>
        flights s = handler_flights (sys_handler s) \<and> Exited \<notin> set (s_provers s))"

definition end_inv ::
  "('p \<Rightarrow> nat \<Rightarrow> nat \<Rightarrow> bool) \<Rightarrow> ('p \<Rightarrow> 'e \<Rightarrow> bool) \<Rightarrow> ('e \<Rightarrow> (string + bytes) outcome) \<Rightarrow> ('r, 'p, 'e) psys \<Rightarrow> bool" where
  "end_inv good final onchain s \<longleftrightarrow>
     (case s_run s of
        Running \<Rightarrow> True
      | Stopped \<Rightarrow> (\<exists>e r. embed_ok good final e \<and> embed_proof (sys_handler s) = Some e \<and> onchain e = Ret r \<and>
          completion (s_gw s) = Some (case r of Inr bs \<Rightarrow> bs | Inl _ \<Rightarrow> []))
      | Crashed \<Rightarrow> completion (s_gw s) = None \<and> (\<exists>e msg. embed_ok good final e \<and> onchain e = Panic msg))"

definition msgs_inv ::
  "('p \<Rightarrow> nat \<Rightarrow> nat \<Rightarrow> bool) \<Rightarrow> ('p \<Rightarrow> 'e \<Rightarrow> bool) \<Rightarrow> 'r list \<Rightarrow> ('r, 'p, 'e) psys \<Rightarrow> bool" where
  "msgs_inv good final recs s \<longleftrightarrow>
     (\<forall>x \<in> set (task_msgs s). task_ok recs x) \<and> (\<forall>x \<in> set (s_to_gw s). is_report x) \<and>
     (\<forall>p \<in> all_proofs s. proof_ok good final recs p) \<and>
     (\<forall>e. Embed e \<in> set (s_to_gw s) \<longrightarrow> embed_ok good final e)"

definition psys_inv ::
  "('p \<Rightarrow> nat \<Rightarrow> nat \<Rightarrow> bool) \<Rightarrow> ('p \<Rightarrow> 'e \<Rightarrow> bool) \<Rightarrow> 'r list \<Rightarrow> ('e \<Rightarrow> (string + bytes) outcome) \<Rightarrow>
     ('r, 'p, 'e) psys \<Rightarrow> nat \<Rightarrow> bool" where
  "psys_inv good final recs onchain s m \<longleftrightarrow>
     emu_inv recs s m \<and> (s_run s = Running \<longrightarrow> gw_inv s m) \<and> msgs_inv good final recs s \<and> end_inv good final onchain s"

section \<open>Bookkeeping lemmas\<close>

lemma exit_guarded_append:
  "exit_guarded xs \<Longrightarrow> Exit \<notin> set ys \<or> (\<exists>e zs. ys = Embed e # zs) \<Longrightarrow> exit_guarded (xs @ ys)"
proof (induction xs rule: exit_guarded.induct)
  case 1
  have "Exit \<notin> set ys \<Longrightarrow> exit_guarded ys" by (induction ys rule: exit_guarded.induct) auto
  with 1 show ?case by auto
qed auto

lemma result_guarded: "result_of x = Some kp \<Longrightarrow> exit_guarded (x # xs) = exit_guarded xs"
  by (cases x rule: result_of.cases) auto

text \<open>A node in progress is the whole tree exactly when it awaits all registered chunks.\<close>

lemma flight_alone:
  assumes inv: "handler_inv h m" and fl: "(k, s, e) \<in># handler_flights h"
  shows "handler_nodes h = 1 \<longleftrightarrow> unat s = 0 \<and> Suc (unat e) = m" and "Suc (unat e) \<le> m"
proof -
  from fl obtain xs n ys where t: "tree (proof_tree h) = xs @ (k, n) # ys" and r: "node_range (k, n) = (s, e)"
    by (elim open_node_entry) auto
  with inv have xs: "tiles 0 xs (unat s)" and ys: "tiles (Suc (unat e)) ys m"
    by (auto simp: tree_inv_def tiles_append)
  show "Suc (unat e) \<le> m" using tiles_length [OF ys] by simp
  show "handler_nodes h = 1 \<longleftrightarrow> unat s = 0 \<and> Suc (unat e) = m"
    using tiles_length [OF xs] tiles_length [OF ys] xs ys by (auto simp: t)
qed

section \<open>Unchanged parts\<close>

text \<open>Which parts of the state each clause of the invariant reads.\<close>

lemma emu_inv_frame [simp]:
  "emu_inv recs (s\<lparr>s_gw := g\<rparr>) m = emu_inv recs s m"
  "emu_inv recs (s\<lparr>s_run := st\<rparr>) m = emu_inv recs s m"
  "emu_inv recs (s\<lparr>s_to_provers := xs\<rparr>) m = emu_inv recs s m"
  "emu_inv recs (s\<lparr>s_to_gw := xs\<rparr>) m = emu_inv recs s m"
  "emu_inv recs (s\<lparr>s_provers := ps\<rparr>) m = emu_inv recs s m"
  by (simp_all add: emu_inv_def)

lemma task_msgs_frame [simp]:
  "task_msgs (s\<lparr>s_pending := rs\<rparr>) = task_msgs s"
  "task_msgs (s\<lparr>s_index := i\<rparr>) = task_msgs s"
  "task_msgs (s\<lparr>s_done := d\<rparr>) = task_msgs s"
  "task_msgs (s\<lparr>s_emu := xs\<rparr>) = task_msgs s"
  "task_msgs (s\<lparr>s_gw := g\<rparr>) = task_msgs s"
  "task_msgs (s\<lparr>s_run := st\<rparr>) = task_msgs s"
  "task_msgs (s\<lparr>s_to_gw := xs\<rparr>) = task_msgs s"
  by (simp_all add: task_msgs_def)

lemma emu_inv_Cons:
  assumes "emu_inv recs s m" and "s_emu s = x # xs"
  obtains (request) "m < length recs" "x = riscv_task (of_nat m) (recs ! m)" "emu_inv recs (s\<lparr>s_emu := xs\<rparr>) (Suc m)"
  | (finished) "x = EmulatorComplete" "xs = []" "s_done s" "m = length recs" "emu_inv recs (s\<lparr>s_emu := xs\<rparr>) m"
proof -
  from assms obtain reqs tail where m: "m \<le> length recs" and d: "s_done s \<longrightarrow> s_pending s = []"
    and e: "x # xs = reqs @ tail" and tl: "tail = [] \<or> tail = [EmulatorComplete] \<and> s_done s"
    and q: "reqs @ send_records (s_index s) (s_pending s) = send_records (of_nat m) (drop m recs)"
    by (auto simp: emu_inv_def)
  show ?thesis
  proof (cases reqs)
    case Nil
    with e tl have "x = EmulatorComplete" "xs = []" "s_done s" by auto
    moreover from this d q Nil have "drop m recs = []" by (cases "drop m recs") auto
    with m have "m = length recs" by simp
    ultimately show ?thesis using d by (intro finished) (auto simp: emu_inv_def)
  next
    case (Cons y reqs')
    with q have lt: "m < length recs" by (cases "m < length recs") auto
    then have dm: "drop m recs = recs ! m # drop (Suc m) recs" by (rule Cons_nth_drop_Suc [symmetric])
    from q Cons dm have y: "y = riscv_task (of_nat m) (recs ! m)"
      and q': "reqs' @ send_records (s_index s) (s_pending s) = send_records (of_nat (Suc m)) (drop (Suc m) recs)"
      by (auto simp: add.commute)
    from e Cons have "x = y" "xs = reqs' @ tail" by auto
    with lt d tl q' have "emu_inv recs (s\<lparr>s_emu := xs\<rparr>) (Suc m)"
      unfolding emu_inv_def by (intro conjI exI [of _ reqs'] exI [of _ tail]) auto
    with lt y \<open>x = y\<close> show ?thesis by (intro request) auto
  qed
qed

lemma emu_inv_send:
  assumes "emu_inv recs s m" and "s_pending s = r # rs"
  shows "emu_inv recs (s\<lparr>s_pending := rs, s_index := s_index s + 1, s_emu := s_emu s @ [riscv_task (s_index s) r]\<rparr>) m"
  using assms by (auto simp: emu_inv_def)

lemma emu_inv_finish:
  assumes "emu_inv recs s m" and "s_pending s = []" and "\<not> s_done s"
  shows "emu_inv recs (s\<lparr>s_done := True, s_emu := s_emu s @ [EmulatorComplete]\<rparr>) m"
  using assms by (auto simp: emu_inv_def)

section \<open>Every step keeps the invariant\<close>

lemma msgs_inv_extend:
  assumes "msgs_inv good final recs s"
    and "set (task_msgs s') \<subseteq> set (task_msgs s) \<union> T" and "\<And>x. x \<in> T \<Longrightarrow> task_ok recs x"
    and "set (s_to_gw s') \<subseteq> set (s_to_gw s) \<union> R"
    and "\<And>x. x \<in> R \<Longrightarrow> is_report x \<and> (\<forall>e. x = Embed e \<longrightarrow> embed_ok good final e)"
    and "tree_proofs (proof_tree (sys_handler s')) \<subseteq> all_proofs s"
    and "\<And>x p. x \<in> T \<union> R \<Longrightarrow> p \<in> msg_proofs x \<Longrightarrow> p \<in> all_proofs s \<or> proof_ok good final recs p"
  shows "msgs_inv good final recs s'"
proof -
  have "proof_ok good final recs p" if "p \<in> all_proofs s'" for p
  proof -
    from that consider "p \<in> tree_proofs (proof_tree (sys_handler s'))"
      | x where "x \<in> set (task_msgs s') \<union> set (s_to_gw s')" "p \<in> msg_proofs x"
      by (auto simp: all_proofs_def)
    then have "p \<in> all_proofs s \<or> proof_ok good final recs p"
    proof cases
      case 2
      with assms(2,4) consider "x \<in> set (task_msgs s) \<union> set (s_to_gw s)" | "x \<in> T \<union> R" by blast
      then show ?thesis
      proof cases
        case 1
        with 2 show ?thesis by (auto simp: all_proofs_def)
      next
        case 2
        with assms(7) \<open>p \<in> msg_proofs x\<close> show ?thesis by blast
      qed
    qed (use assms(6) in blast)
    with assms(1) show ?thesis by (auto simp: msgs_inv_def)
  qed
  with assms(1-5) show ?thesis unfolding msgs_inv_def by (intro conjI ballI allI impI) blast+
qed

lemma flights_member:
  assumes "gw_inv s m" and "x \<in> set (s_to_gw s)" and "f \<in># msg_flight x"
  shows "f \<in># handler_flights (sys_handler s)"
proof -
  from assms(2) obtain us vs where "s_to_gw s = us @ x # vs" by (metis split_list)
  with assms(3) have "f \<in># flights s" by (simp add: flights_def)
  with assms(1) show ?thesis by (auto simp: gw_inv_def dest: mset_subset_eqD)
qed

lemma gw_inv_frame [simp]:
  "gw_inv (s\<lparr>s_pending := rs\<rparr>) m = gw_inv s m"
  "gw_inv (s\<lparr>s_index := i\<rparr>) m = gw_inv s m"
  "gw_inv (s\<lparr>s_done := d\<rparr>) m = gw_inv s m"
  "gw_inv (s\<lparr>s_emu := xs\<rparr>) m = gw_inv s m"
  "gw_inv (s\<lparr>s_run := st\<rparr>) m = gw_inv s m"
  by (simp_all add: gw_inv_def flights_def)

lemma msgs_inv_frame [simp]:
  "msgs_inv good final recs (s\<lparr>s_pending := rs\<rparr>) = msgs_inv good final recs s"
  "msgs_inv good final recs (s\<lparr>s_index := i\<rparr>) = msgs_inv good final recs s"
  "msgs_inv good final recs (s\<lparr>s_done := d\<rparr>) = msgs_inv good final recs s"
  "msgs_inv good final recs (s\<lparr>s_emu := xs\<rparr>) = msgs_inv good final recs s"
  "msgs_inv good final recs (s\<lparr>s_run := st\<rparr>) = msgs_inv good final recs s"
  by (simp_all add: msgs_inv_def all_proofs_def)

lemma gw_request_inv:
  assumes emu: "emu_inv recs s m" and gw: "gw_inv s m" and ms: "msgs_inv good final recs s"
    and len: "length recs < 2 ^ 64" and x: "s_emu s = x # xs" and m: "m < length recs"
    and xm: "x = riscv_task (of_nat m) (recs ! m)"
    and on: "gateway_on_emulator (Some x) (s_gw s) = Ret (g, out, ctl)"
  defines "s' \<equiv> s\<lparr>s_emu := xs, s_gw := g, s_to_provers := s_to_provers s @ out, s_run := run_after ctl\<rparr>"
  shows "s_run s' = Running \<and> gw_inv s' (Suc m) \<and> msgs_inv good final recs s'"
proof -
  have m64: "m < 2 ^ 64" using m len by simp
  from gw have inv: "handler_inv (gw_handler (s_gw s)) m" by (simp add: gw_inv_def)
  from on_emulator_request [OF inv m64, of "\<lparr>rreq_chunk_index = of_nat m, rreq_record = recs ! m\<rparr>"
      "usize_to_string (of_nat m)" "''''"] on xm
  obtain h where h: "g = (s_gw s)\<lparr>gw_handler := h\<rparr>" "out = [x]" "ctl = Continue" "handler_inv h (Suc m)"
    "handler_flights h = add_mset (of_nat m, of_nat m, of_nat m) (handler_flights (sys_handler s))"
    "tree_proofs (proof_tree h) = tree_proofs (proof_tree (sys_handler s))"
    "embed_proof h = embed_proof (sys_handler s)"
    by (auto simp: riscv_task_def simp del: gateway_on_emulator.simps)
  have tm: "task_msgs s' = s_to_provers s @ x # concat (map prover_msgs (s_provers s))"
    by (simp add: s'_def h task_msgs_def)
  then have fl: "flights s' = add_mset (of_nat m, of_nat m, of_nat m) (flights s)"
    by (simp add: flights_def task_msgs_def s'_def xm)
  have ok: "task_ok recs x" using m m64 by (simp add: xm riscv_task_def unat_of_nat_usize)
  have "msg_proofs x = {}" by (simp add: xm riscv_task_def)
  with ms tm ok h have "msgs_inv good final recs s'"
    by (intro msgs_inv_extend [OF ms, where T = "{x}" and R = "{}"])
      (auto simp: s'_def task_msgs_def all_proofs_def)
  moreover have "gw_inv s' (Suc m)" using gw h fl by (auto simp: gw_inv_def s'_def)
  ultimately show ?thesis by (simp add: s'_def run_after_def h)
qed

lemma gw_complete_inv:
  assumes gw: "gw_inv s m" and ms: "msgs_inv good final recs s"
    and "s_emu s = EmulatorComplete # xs"
    and on: "gateway_on_emulator (Some EmulatorComplete) (s_gw s) = Ret (g, out, ctl)"
  defines "s' \<equiv> s\<lparr>s_emu := xs, s_gw := g, s_to_provers := s_to_provers s @ out, s_run := run_after ctl\<rparr>"
  shows "s_run s' = Running \<and> gw_inv s' m \<and> msgs_inv good final recs s'"
proof -
  from gw have e: "embed_proof (gw_handler (s_gw s)) = None" by (simp add: gw_inv_def)
  from on have h: "g = (s_gw s)\<lparr>gw_handler := (sys_handler s)\<lparr>emulator_complete := True\<rparr>\<rparr>" "out = []" "ctl = Continue"
    by (simp_all add: on_emulator_complete [OF e] del: gateway_on_emulator.simps)
  have tm: "task_msgs s' = task_msgs s" by (simp add: s'_def h task_msgs_def)
  then have "flights s' = flights s" by (simp add: flights_def s'_def)
  with gw h have "gw_inv s' m" by (auto simp: gw_inv_def s'_def)
  moreover have "all_proofs s' = all_proofs s" using tm by (simp add: all_proofs_def s'_def h)
  with ms tm have "msgs_inv good final recs s'" by (simp add: msgs_inv_def s'_def)
  ultimately show ?thesis by (simp add: s'_def run_after_def h)
qed

lemma combine_task_ok:
  assumes "handler_inv h m" and "(k, start_chunk a, end_chunk b) \<in># handler_flights h"
    and "adjacent a b" and "m \<le> length recs"
  shows "task_ok recs (combine_task (handler_nodes h = 1) k a b)"
  using flight_alone [OF assms(1,2)] assms(3,4) by (auto simp: combine_task_def)

lemma gw_result_inv:
  assumes gw: "gw_inv s m" and ms: "msgs_inv good final recs s" and m: "m \<le> length recs" "m < 2 ^ 64"
    and x: "s_to_gw s = x # xs" and res: "result_of x = Some (k, p)"
    and on: "gateway_on_prover onchain (Some x) (s_gw s) = Ret (g, out, ctl)"
  defines "s' \<equiv> s\<lparr>s_to_gw := xs, s_gw := g, s_to_provers := s_to_provers s @ out, s_run := run_after ctl\<rparr>"
  shows "s_run s' = Running \<and> gw_inv s' m \<and> msgs_inv good final recs s'"
proof -
  let ?f = "(k, start_chunk p, end_chunk p)"
  note rc = result_of_cases(3,4) [OF res]
  from gw have inv: "handler_inv (gw_handler (s_gw s)) m" and e: "embed_proof (gw_handler (s_gw s)) = None"
    by (simp_all add: gw_inv_def)
  have f: "?f \<in># handler_flights (gw_handler (s_gw s))"
    using flights_member [OF gw, of x ?f] x rc by simp
  have pa: "p \<in> all_proofs s" using x rc by (auto simp: all_proofs_def)
  have noE: "x \<noteq> Embed e" for e using res by auto
  have eg: "exit_guarded xs" using gw x result_guarded [OF res] by (simp add: gw_inv_def)
  have fls: "flights s = add_mset ?f (sum_list (map msg_flight (task_msgs s @ xs)))"
    by (simp add: flights_def x rc)
  from inv m(2) e res f show ?thesis
  proof (cases rule: on_prover_result [where onchain = onchain])
    case (settled h)
    with on have h: "g = (s_gw s)\<lparr>gw_handler := h\<rparr>" "out = []" "ctl = Continue" by auto
    have tm: "task_msgs s' = task_msgs s" by (simp add: s'_def h task_msgs_def)
    have "flights s = add_mset ?f (flights s')" using fls tm by (simp add: flights_def s'_def)
    with gw settled h noE eg x have "gw_inv s' m" by (auto simp: gw_inv_def s'_def)
    moreover have "msgs_inv good final recs s'"
      by (rule msgs_inv_extend [OF ms, where T = "{}" and R = "{}"])
        (use tm settled h pa x in \<open>auto simp: s'_def all_proofs_def\<close>)
    ultimately show ?thesis by (simp add: s'_def run_after_def h)
  next
    case (merged h a b F)
    let ?t = "combine_task (handler_nodes h = 1) k a b"
    from merged on have h: "g = (s_gw s)\<lparr>gw_handler := h\<rparr>" "out = [?t]" "ctl = Continue" by auto
    have tm: "task_msgs s' = s_to_provers s @ ?t # concat (map prover_msgs (s_provers s))"
      by (simp add: s'_def h task_msgs_def)
    have fl: "flights s' = add_mset (k, start_chunk a, end_chunk b) (sum_list (map msg_flight (task_msgs s @ xs)))"
      using tm by (simp add: flights_def s'_def task_msgs_def)
    with gw merged h noE eg x fls have "gw_inv s' m" by (auto simp: gw_inv_def s'_def)
    moreover have ok: "task_ok recs ?t"
      using merged m(1) by (intro combine_task_ok) auto
    have "msgs_inv good final recs s'"
      by (rule msgs_inv_extend [OF ms, where T = "{?t}" and R = "{}"])
        (use tm merged h pa x ok in \<open>auto simp: s'_def all_proofs_def task_msgs_def\<close>)
    ultimately show ?thesis by (simp add: s'_def run_after_def h)
  qed
qed

lemma gw_request_task_inv:
  assumes gw: "gw_inv s m" and ms: "msgs_inv good final recs s" and x: "s_to_gw s = RequestTask # xs"
  shows "gw_inv (s\<lparr>s_to_gw := xs\<rparr>) m \<and> msgs_inv good final recs (s\<lparr>s_to_gw := xs\<rparr>)"
proof
  show "gw_inv (s\<lparr>s_to_gw := xs\<rparr>) m" using gw x by (auto simp: gw_inv_def flights_def)
  show "msgs_inv good final recs (s\<lparr>s_to_gw := xs\<rparr>)"
    by (rule msgs_inv_extend [OF ms, where T = "{}" and R = "{}"]) (use x in \<open>auto simp: all_proofs_def\<close>)
qed

text \<open>The steps of the gateway on a report of a prover.\<close>

lemma gw_prover_inv:
  assumes gw: "gw_inv s m" and ms: "msgs_inv good final recs s" and m: "m \<le> length recs" "m < 2 ^ 64"
    and x: "s_to_gw s = x # xs"
    and on: "gateway_on_prover onchain (Some x) (s_gw s) = Ret (g, out, ctl)"
  defines "s' \<equiv> s\<lparr>s_to_gw := xs, s_gw := g, s_to_provers := s_to_provers s @ out, s_run := run_after ctl\<rparr>"
  shows "(s_run s' = Running \<longrightarrow> gw_inv s' m) \<and> msgs_inv good final recs s' \<and> end_inv good final onchain s'"
proof -
  from ms x have "is_report x" by (simp add: msgs_inv_def)
  then consider k p where "result_of x = Some (k, p)" | "x = RequestTask" | e where "x = Embed e" | "x = Exit"
    by (cases x rule: is_report.cases) auto
  then show ?thesis
  proof cases
    case 1
    from gw_result_inv [OF gw ms m x 1 on] show ?thesis by (simp add: s'_def end_inv_def)
  next
    case 2
    with on have "s' = s\<lparr>s_to_gw := xs, s_run := Running\<rparr>" by (auto simp: s'_def run_after_def)
    with gw_request_task_inv [OF gw ms] x 2 show ?thesis by (simp add: end_inv_def)
  next
    case (3 e)
    with on obtain r where r: "onchain e = Ret r" and out: "out = []" "ctl = Break"
      and g: "g = complete_with (case r of Inr bs \<Rightarrow> bs | Inl _ \<Rightarrow> [])
        ((s_gw s)\<lparr>gw_handler := (sys_handler s)\<lparr>embed_proof := Some e\<rparr>\<rparr>)"
      by (auto simp del: gateway_on_prover.simps simp: on_prover_embed bind_outcome_eq_Ret)
    have "embed_ok good final e" using ms x 3 by (simp add: msgs_inv_def)
    moreover have "completion_sender (s_gw s)" using gw by (simp add: gw_inv_def)
    ultimately have "end_inv good final onchain s'"
      using r by (auto simp: end_inv_def s'_def out run_after_def g complete_with_def split: sum.splits)
    moreover have "msgs_inv good final recs s'"
      by (rule msgs_inv_extend [OF ms, where T = "{}" and R = "{}"])
        (use x out g in \<open>auto simp: s'_def all_proofs_def task_msgs_def\<close>)
    ultimately show ?thesis by (simp add: s'_def out run_after_def)
  next
    case 4
    with gw x show ?thesis by (simp add: gw_inv_def)
  qed
qed

lemma gw_prover_panics:
  assumes gw: "gw_inv s m" and ms: "msgs_inv good final recs s" and m: "m < 2 ^ 64"
    and x: "s_to_gw s = x # xs"
    and on: "gateway_on_prover onchain (Some x) (s_gw s) = (Panic msg :: ('r, 'p, 'e) gateway_result)"
  shows "\<exists>e. x = Embed e \<and> onchain e = Panic msg \<and> embed_ok good final e"
proof -
  from ms x have "is_report x" by (simp add: msgs_inv_def)
  then consider k p where "result_of x = Some (k, p)" | "x = RequestTask" | e where "x = Embed e" | "x = Exit"
    by (cases x rule: is_report.cases) auto
  then show ?thesis
  proof cases
    case (1 k p)
    let ?f = "(k, start_chunk p, end_chunk p)"
    from gw have inv: "handler_inv (gw_handler (s_gw s)) m" and e: "embed_proof (gw_handler (s_gw s)) = None"
      by (simp_all add: gw_inv_def)
    have "?f \<in># handler_flights (gw_handler (s_gw s))"
      using flights_member [OF gw, of x ?f] x result_of_cases(3) [OF 1] by simp
    with inv m e 1 have False
      by (cases rule: on_prover_result [where onchain = onchain]) (use on in simp_all)
    then show ?thesis ..
  next
    case 2
    with on show ?thesis by simp
  next
    case (3 e)
    with on have "onchain e = Panic msg"
      by (auto simp del: gateway_on_prover.simps simp: on_prover_embed bind_outcome_eq_Panic)
    with 3 ms x show ?thesis by (auto simp: msgs_inv_def)
  next
    case 4
    with gw x show ?thesis by (simp add: gw_inv_def)
  qed
qed

text \<open>The steps of the provers: what they send, and what becomes of the flights.\<close>

lemma provers_gw_inv:
  assumes gw: "gw_inv s m"
    and guard: "Exit \<notin> set out \<or> (\<exists>e zs. out = Embed e # zs)"
    and sub: "flights s' \<subseteq># flights s"
    and keep: "(\<exists>e. Embed e \<in> set out) \<or> Dead \<in> set ps \<or>
      flights s' = flights s \<and> (Dead \<in> set (s_provers s) \<longrightarrow> Dead \<in> set ps) \<and> (Exited \<in> set ps \<longrightarrow> Exited \<in> set (s_provers s))"
    and s': "s' = s\<lparr>s_provers := ps, s_to_provers := tp, s_to_gw := s_to_gw s @ out\<rparr>"
  shows "gw_inv s' m"
proof -
  have "exit_guarded (s_to_gw s @ out)" using gw guard by (simp add: gw_inv_def exit_guarded_append)
  moreover have "flights s' \<subseteq># handler_flights (sys_handler s)"
    using gw sub by (auto simp: gw_inv_def intro: subset_mset.order_trans)
  moreover have "flights s' = handler_flights (sys_handler s) \<and> Exited \<notin> set ps"
    if "\<forall>e. Embed e \<notin> set (s_to_gw s @ out)" and "Dead \<notin> set ps"
    using that keep gw by (auto simp: gw_inv_def)
  ultimately show ?thesis using gw s' by (auto simp: gw_inv_def)
qed

lemma end_inv_frame [simp]:
  "end_inv good final onchain (s\<lparr>s_pending := rs\<rparr>) = end_inv good final onchain s"
  "end_inv good final onchain (s\<lparr>s_index := i\<rparr>) = end_inv good final onchain s"
  "end_inv good final onchain (s\<lparr>s_done := d\<rparr>) = end_inv good final onchain s"
  "end_inv good final onchain (s\<lparr>s_emu := xs\<rparr>) = end_inv good final onchain s"
  "end_inv good final onchain (s\<lparr>s_to_provers := xs\<rparr>) = end_inv good final onchain s"
  "end_inv good final onchain (s\<lparr>s_to_gw := xs\<rparr>) = end_inv good final onchain s"
  "end_inv good final onchain (s\<lparr>s_provers := ps\<rparr>) = end_inv good final onchain s"
  by (cases "s_run s"; simp add: end_inv_def)+

lemma busy_task: "s_provers s = ps @ Busy x # qs \<Longrightarrow> x \<in> set (task_msgs s)"
  by (simp add: task_msgs_def)

lemma gateway_emu_returns:
  assumes gw: "gw_inv s m" and emu: "emu_inv recs s m" and len: "length recs < 2 ^ 64"
    and x: "s_emu s = (x :: ('r, 'p, 'e) gateway_msg) # xs"
  shows "\<exists>g out. gateway_on_emulator (Some x) (s_gw s) = Ret (g, out :: ('r, 'p, 'e) gateway_msg list, Continue)"
  using emu x
proof (cases rule: emu_inv_Cons)
  case request
  from gw have "handler_inv (gw_handler (s_gw s)) m" by (simp add: gw_inv_def)
  with on_emulator_request [of "s_gw s" m "\<lparr>rreq_chunk_index = of_nat m, rreq_record = recs ! m\<rparr>"
      "usize_to_string (of_nat m)" "''''"] request len
  show ?thesis by (auto simp: riscv_task_def simp del: gateway_on_emulator.simps)
next
  case finished
  from gw have "embed_proof (gw_handler (s_gw s)) = None" by (simp add: gw_inv_def)
  with finished show ?thesis by (auto simp: on_emulator_complete simp del: gateway_on_emulator.simps)
qed

text \<open>The steps of the gateway on a message of the emulator, and when it panics.\<close>

lemma gw_emulator_inv:
  assumes inv: "psys_inv good final recs onchain s m" and run: "s_run s = Running" and x: "s_emu s = x # xs"
    and len: "length recs < 2 ^ 64" and on: "gateway_on_emulator (Some x) (s_gw s) = Ret (g, out, ctl)"
  shows "\<exists>m'. psys_inv good final recs onchain
    (s\<lparr>s_emu := xs, s_gw := g, s_to_provers := s_to_provers s @ out, s_run := run_after ctl\<rparr>) m'"
proof -
  from inv run have emu: "emu_inv recs s m" and gw: "gw_inv s m" and ms: "msgs_inv good final recs s"
    by (simp_all add: psys_inv_def)
  from emu x show ?thesis
  proof (cases rule: emu_inv_Cons)
    case request
    with gw_request_inv [OF emu gw ms len x _ _ on] show ?thesis by (auto simp: psys_inv_def end_inv_def)
  next
    case finished
    with gw_complete_inv [OF gw ms, of xs g out ctl] x on show ?thesis by (auto simp: psys_inv_def end_inv_def)
  qed
qed

lemma gw_panic_inv:
  assumes inv: "psys_inv good final recs onchain s m" and run: "s_run s = Running" and x: "s_to_gw s = x # xs"
    and m: "m < 2 ^ 64" and on: "gateway_on_prover onchain (Some x) (s_gw s) = (Panic msg :: ('r, 'p, 'e) gateway_result)"
  shows "psys_inv good final recs onchain (s\<lparr>s_to_gw := xs, s_run := Crashed\<rparr>) m"
proof -
  from inv run have emu: "emu_inv recs s m" and gw: "gw_inv s m" and ms: "msgs_inv good final recs s"
    by (simp_all add: psys_inv_def)
  from gw_prover_panics [OF gw ms m x on] obtain e where "onchain e = Panic msg" "embed_ok good final e" by blast
  moreover have "completion (s_gw s) = None" using gw by (simp add: gw_inv_def)
  moreover have "msgs_inv good final recs (s\<lparr>s_to_gw := xs\<rparr>)"
    by (rule msgs_inv_extend [OF ms, where T = "{}" and R = "{}"]) (use x in \<open>auto simp: all_proofs_def\<close>)
  ultimately show ?thesis using emu by (auto simp: psys_inv_def end_inv_def)
qed

lemma psys_init_inv: "psys_inv good final recs onchain (psys_init recs n) 0"
  by (auto simp: psys_inv_def psys_init_def emu_inv_def gw_inv_def msgs_inv_def end_inv_def gateway_new_def
      flights_def task_msgs_def all_proofs_def GatewayHandler_new_def tree_proofs_def ProofTree_default_def
      btree_new_def tree_inv_def btree_wf_Nil neighbours_Nil open_nodes_def)

text \<open>Moves of provers that send nothing but task requests.\<close>

lemma prover_move_inv:
  assumes inv: "psys_inv good final recs onchain s m"
    and s': "s' = s\<lparr>s_provers := ps, s_to_provers := tp, s_to_gw := s_to_gw s @ out\<rparr>" and out: "set out \<subseteq> {RequestTask}"
    and tasks: "set (task_msgs s') \<subseteq> set (task_msgs s)" and sub: "flights s' \<subseteq># flights s"
    and keep: "Dead \<in> set ps \<or>
      flights s' = flights s \<and> (Dead \<in> set (s_provers s) \<longrightarrow> Dead \<in> set ps) \<and> (Exited \<in> set ps \<longrightarrow> Exited \<in> set (s_provers s))"
  shows "psys_inv good final recs onchain s' m"
proof -
  have "gw_inv s' m" if "gw_inv s m"
    using out keep by (intro provers_gw_inv [OF that _ sub _ s']) auto
  moreover have "msgs_inv good final recs s'"
    by (rule msgs_inv_extend [of good final recs s, where T = "{}" and R = "set out"])
      (use inv out tasks s' in \<open>auto simp: psys_inv_def all_proofs_def\<close>)
  ultimately show ?thesis using inv s' by (auto simp: psys_inv_def)
qed

context prover_contract
begin

text \<open>A combined proof that was not finished does not cover a complete run that would verify.\<close>

lemma combined_proof_ok:
  assumes "good p (unat i) (unat j)" and "\<not> (flag \<and> (\<exists>ep. final p ep))"
    and "unat i = 0 \<Longrightarrow> Suc (unat j) = length recs \<Longrightarrow> flag"
  shows "proof_ok good final recs (IndexedProof_new p i j)"
proof -
  have False if acc: "accepting good final recs" and z: "unat i = 0" "Suc (unat j) = length recs"
  proof -
    from z(2) have "length recs - 1 = unat j" by simp
    with assms(1) z(1) have "good p 0 (length recs - 1)" by simp
    with acc assms(2) assms(3) [OF z] show False by (auto simp: accepting_def)
  qed
  with assms(1) show ?thesis by (auto simp: proof_ok_def)
qed

text \<open>The answer to a task in the ledger: a labelled proof, or a verified embed proof.\<close>

lemma answer_cases:
  assumes ok: "task_ok recs x" and ps: "\<And>p. p \<in> msg_proofs x \<Longrightarrow> proof_ok good final recs p"
    and h: "handle i x = Ret (out, ctl)"
  obtains (result) res k p where "ctl = Continue" "out = [res, RequestTask]" "result_of res = Some (k, p)"
      "msg_flight res = msg_flight x" "proof_ok good final recs p"
  | (verified) e k b where "ctl = Break" "out = [Embed e, Exit]" "embed_ok good final e" "msg_flight x = {#(k, 0, b)#}"
proof (cases x rule: is_task.cases)
  case (1 q tid ip)
  with h riscv_answer [of i q tid ip out ctl] ok obtain p where c: "ctl = Continue"
    and o: "out = [Riscv (RiscvResponse \<lparr>rres_chunk_index = rreq_chunk_index q,
             rres_proof = IndexedProof_new p (rreq_chunk_index q) (rreq_chunk_index q)\<rparr>) tid ip, RequestTask]"
    and g: "good p (unat (rreq_chunk_index q)) (unat (rreq_chunk_index q))"
    by auto
  from g have "proof_ok good final recs (IndexedProof_new p (rreq_chunk_index q) (rreq_chunk_index q))"
    by (auto simp: proof_ok_def accepting_def)
  with c o 1 show ?thesis by (intro result) auto
next
  case (2 q tid ip)
  with ok obtain a b where q: "creq_proofs q = [a, b]" and adj: "adjacent a b"
    and f0: "flag_complete q \<Longrightarrow> unat (start_chunk a) = 0"
    and f1: "unat (start_chunk a) = 0 \<Longrightarrow> Suc (unat (end_chunk b)) = length recs \<Longrightarrow> flag_complete q"
    by auto
  have "good (inner a) (unat (start_chunk a)) (unat (end_chunk a))"
    and gb: "good (inner b) (unat (start_chunk b)) (unat (end_chunk b))"
    using ps [of a] ps [of b] 2 q by (simp_all add: proof_ok_def)
  with combine_answer [of i q tid ip out ctl a b] h 2 q adj obtain p
    where gp: "good p (unat (start_chunk a)) (unat (end_chunk b))"
    and cs: "(ctl = Continue \<and> \<not> (flag_complete q \<and> (\<exists>ep. final p ep)) \<and>
           out = [Combine (CombineResponse \<lparr>cres_chunk_index = creq_chunk_index q,
                    cres_proof = IndexedProof_new p (start_chunk a) (end_chunk b)\<rparr>) tid ip, RequestTask]
         \<or> (\<exists>ep. ctl = Break \<and> flag_complete q \<and> final p ep \<and> out = [Embed ep, Exit]))"
    by auto
  from cs show ?thesis
  proof (elim disjE exE conjE)
    assume c: "ctl = Continue" and nf: "\<not> (flag_complete q \<and> (\<exists>ep. final p ep))"
      and o: "out = [Combine (CombineResponse \<lparr>cres_chunk_index = creq_chunk_index q,
                    cres_proof = IndexedProof_new p (start_chunk a) (end_chunk b)\<rparr>) tid ip, RequestTask]"
    have "proof_ok good final recs (IndexedProof_new p (start_chunk a) (end_chunk b))"
      by (rule combined_proof_ok [OF gp nf f1])
    with c o 2 q show ?thesis by (intro result) auto
  next
    fix ep assume v: "ctl = Break" "flag_complete q" "final p ep" "out = [Embed ep, Exit]"
    have "0 < unat (end_chunk b)" using good_range [OF gb] adj by (simp add: adjacent_def)
    with v gp f0 have "embed_ok good final ep" by (auto simp: embed_ok_def)
    moreover have "start_chunk a = 0" using f0 [OF v(2)] by (simp add: unat_eq_0)
    ultimately show ?thesis using v 2 q by (intro verified [of ep "creq_chunk_index q" "end_chunk b"]) auto
  qed
qed (use ok in auto)

lemma prover_answer_inv:
  assumes inv: "psys_inv good final recs onchain s m" and b: "s_provers s = ps @ Busy x # qs"
    and h: "handle (length ps) x = Ret (out, ctl)"
  defines "s' \<equiv> s\<lparr>s_provers := ps @ prover_after ctl # qs, s_to_gw := s_to_gw s @ out\<rparr>"
  shows "psys_inv good final recs onchain s' m"
proof -
  from inv have ms: "msgs_inv good final recs s" by (simp add: psys_inv_def)
  have xt: "x \<in> set (task_msgs s)" using b by (rule busy_task)
  have ok: "task_ok recs x" using ms xt by (simp add: msgs_inv_def)
  have pok: "proof_ok good final recs p" if "p \<in> msg_proofs x" for p
    using that ms xt by (auto simp: msgs_inv_def all_proofs_def)
  have tm: "task_msgs s' = s_to_provers s @ concat (map prover_msgs ps) @ concat (map prover_msgs qs)"
    by (cases ctl) (simp_all add: s'_def prover_after_def task_msgs_def)
  have ext: "msgs_inv good final recs s'"
    if "\<And>y. y \<in> set out \<Longrightarrow> is_report y \<and> (\<forall>e. y = Embed e \<longrightarrow> embed_ok good final e)"
      "\<And>y p. y \<in> set out \<Longrightarrow> p \<in> msg_proofs y \<Longrightarrow> proof_ok good final recs p"
    by (rule msgs_inv_extend [OF ms, where T = "{}" and R = "set out"])
      (use that tm b in \<open>auto simp: s'_def all_proofs_def task_msgs_def\<close>)
  show ?thesis
  proof (rule answer_cases [OF ok pok h], assumption)
    fix res k p
    assume result: "ctl = Continue" "out = [res, RequestTask]" "result_of res = Some (k, p)"
      "msg_flight res = msg_flight x" "proof_ok good final recs p"
    have rp: "is_report res" "msg_proofs res = {p}" "res \<noteq> Exit" "\<And>e. res \<noteq> Embed e"
      using result(3) by (cases res rule: result_of.cases; auto)+
    have "flights s' = flights s" using result tm b
      by (simp add: flights_def s'_def task_msgs_def)
    then have "gw_inv s' m" if "gw_inv s m" using that b result rp
      by (intro provers_gw_inv [OF that, of out s' "ps @ prover_after ctl # qs" "s_to_provers s"])
        (auto simp: s'_def prover_after_def)
    moreover have "msgs_inv good final recs s'" by (rule ext) (use result rp in auto)
    ultimately show ?thesis using inv by (simp add: psys_inv_def s'_def)
  next
    fix e k b assume verified: "ctl = Break" "out = [Embed e, Exit]" "embed_ok good final e" "msg_flight x = {#(k, 0, b)#}"
    have "flights s' \<subseteq># flights s" using verified tm b
      by (simp add: flights_def s'_def task_msgs_def)
    then have "gw_inv s' m" if "gw_inv s m" using that b verified
      by (intro provers_gw_inv [OF that, of out s' "ps @ prover_after ctl # qs" "s_to_provers s"])
        (auto simp: s'_def prover_after_def)
    moreover have "msgs_inv good final recs s'" by (rule ext) (use verified in auto)
    ultimately show ?thesis using inv by (simp add: psys_inv_def s'_def)
  qed
qed

lemma psys_step_inv:
  assumes step: "psys_step handle onchain s s'" and inv: "psys_inv good final recs onchain s m"
    and len: "length recs < 2 ^ 64"
  shows "\<exists>m'. psys_inv good final recs onchain s' m'"
proof -
  from inv have emu: "emu_inv recs s m" and gw: "s_run s = Running \<Longrightarrow> gw_inv s m"
    and ms: "msgs_inv good final recs s" and en: "end_inv good final onchain s"
    by (simp_all add: psys_inv_def)
  have m: "m \<le> length recs" "m < 2 ^ 64" using emu len by (simp_all add: emu_inv_def)
  from step show ?thesis
  proof cases
    case (emu_send r rs)
    with inv emu_inv_send [OF emu] show ?thesis by (auto simp: psys_inv_def)
  next
    case emu_finish
    with inv emu_inv_finish [OF emu] show ?thesis by (auto simp: psys_inv_def)
  next
    case (gw_emu x xs g out ctl)
    with gw_emulator_inv [OF inv gw_emu(2,3) len gw_emu(4)] show ?thesis by simp
  next
    case (gw_emu_panic x xs msg)
    have False using gateway_emu_returns [OF gw [OF gw_emu_panic(2)] emu len gw_emu_panic(3)] gw_emu_panic(4)
      by auto
    then show ?thesis ..
  next
    case (gw_prover x xs g out ctl)
    with gw_prover_inv [OF gw ms m, of x xs onchain g out ctl] emu show ?thesis
      by (auto simp: psys_inv_def)
  next
    case (gw_prover_panic x xs msg)
    with gw_panic_inv [OF inv gw_prover_panic(2,4) m(2), of msg] show ?thesis by auto
  next
    case (p_start ps qs)
    then have "psys_inv good final recs onchain s' m"
      by (intro prover_move_inv [OF inv, where ps = "ps @ Waiting # qs" and tp = "s_to_provers s" and out = prover_start])
        (auto simp: prover_start_def flights_def task_msgs_def)
    then show ?thesis ..
  next
    case (p_recv ps qs x xs)
    then have "psys_inv good final recs onchain s' m"
      by (intro prover_move_inv [OF inv, where ps = "ps @ Busy x # qs" and tp = xs and out = "[]"])
        (auto simp: flights_def task_msgs_def)
    then show ?thesis ..
  next
    case (p_answer ps x qs out ctl)
    with prover_answer_inv [OF inv] show ?thesis by blast
  next
    case (p_panic ps x qs msg)
    then have "psys_inv good final recs onchain s' m"
      by (intro prover_move_inv [OF inv, where ps = "ps @ Dead # qs" and tp = "s_to_provers s" and out = "[]"])
        (auto simp: flights_def task_msgs_def)
    then show ?thesis ..
  qed
qed

lemma psys_reach_inv:
  assumes "psys_steps handle onchain (psys_init recs n) s" and "length recs < 2 ^ 64"
  shows "\<exists>m. psys_inv good final recs onchain s m"
  using assms(1)
proof (induction rule: rtranclp_induct)
  case base
  show ?case using psys_init_inv by blast
next
  case (step s s')
  with psys_step_inv assms(2) show ?case by blast
qed

end

end
