(* ===== verification/Proving_Schedule.thy ===== *)
theory Proving_Schedule
  imports Proving
begin

text \<open>
  Executable schedules of a proving task: which participant acts next is a choice, what it
  then does is a function. Choices are sound and complete for the step relation, so a list
  of choices is a run and a state in which no choice applies is a state without steps. The
  theory also gives a small instance of pico-vm on which concrete runs are evaluated.
\<close>

section \<open>Choices\<close>

datatype choice = Emulator_acts | Gateway_acts | Prover_acts nat

definition emulator_acts :: "('r, 'p, 'e) psys \<Rightarrow> ('r, 'p, 'e) psys option" where
  "emulator_acts s =
     (case s_pending s of
        r # rs \<Rightarrow> Some (s\<lparr>s_pending := rs, s_index := s_index s + 1, s_emu := s_emu s @ [riscv_task (s_index s) r]\<rparr>)
      | [] \<Rightarrow> if s_done s then None else Some (s\<lparr>s_done := True, s_emu := s_emu s @ [EmulatorComplete]\<rparr>))"

definition gateway_acts ::
  "('e \<Rightarrow> (string + bytes) outcome) \<Rightarrow> ('r, 'p, 'e) psys \<Rightarrow> ('r, 'p, 'e) psys option" where
  "gateway_acts onchain s =
     (if s_run s \<noteq> Running then None
      else case s_emu s of
        x # xs \<Rightarrow> Some (case gateway_on_emulator (Some x) (s_gw s) of
            Ret (g, out, ctl) \<Rightarrow> s\<lparr>s_emu := xs, s_gw := g, s_to_provers := s_to_provers s @ out, s_run := run_after ctl\<rparr>
          | Panic _ \<Rightarrow> s\<lparr>s_emu := xs, s_run := Crashed\<rparr>)
      | [] \<Rightarrow> (case s_to_gw s of
          x # xs \<Rightarrow> Some (case gateway_on_prover onchain (Some x) (s_gw s) of
              Ret (g, out, ctl) \<Rightarrow> s\<lparr>s_to_gw := xs, s_gw := g, s_to_provers := s_to_provers s @ out, s_run := run_after ctl\<rparr>
            | Panic _ \<Rightarrow> s\<lparr>s_to_gw := xs, s_run := Crashed\<rparr>)
        | [] \<Rightarrow> None))"

definition prover_acts ::
  "(nat \<Rightarrow> ('r, 'p, 'e) gateway_msg \<Rightarrow> (('r, 'p, 'e) gateway_msg list \<times> loop_ctl) outcome) \<Rightarrow> nat \<Rightarrow>
     ('r, 'p, 'e) psys \<Rightarrow> ('r, 'p, 'e) psys option" where
  "prover_acts handle i s =
     (if length (s_provers s) \<le> i then None
      else case s_provers s ! i of
        Starting \<Rightarrow> Some (s\<lparr>s_provers := (s_provers s)[i := Waiting], s_to_gw := s_to_gw s @ prover_start\<rparr>)
      | Waiting \<Rightarrow> (case s_to_provers s of
            x # xs \<Rightarrow> Some (s\<lparr>s_provers := (s_provers s)[i := Busy x], s_to_provers := xs\<rparr>)
          | [] \<Rightarrow> None)
      | Busy x \<Rightarrow> Some (case handle i x of
            Ret (out, ctl) \<Rightarrow> s\<lparr>s_provers := (s_provers s)[i := prover_after ctl], s_to_gw := s_to_gw s @ out\<rparr>
          | Panic _ \<Rightarrow> s\<lparr>s_provers := (s_provers s)[i := Dead]\<rparr>)
      | _ \<Rightarrow> None)"

fun psys_exec where
  "psys_exec handle onchain Emulator_acts s = emulator_acts s"
| "psys_exec handle onchain Gateway_acts s = gateway_acts onchain s"
| "psys_exec handle onchain (Prover_acts i) s = prover_acts handle i s"

fun run_schedule where
  "run_schedule handle onchain [] s = Some s"
| "run_schedule handle onchain (c # cs) s = Option.bind (psys_exec handle onchain c s) (run_schedule handle onchain cs)"

section \<open>Choices and steps\<close>

lemma emulator_acts_step: "emulator_acts s = Some s' \<Longrightarrow> psys_step handle onchain s s'"
  by (auto simp: emulator_acts_def split: list.splits if_splits intro: psys_step.intros)

lemma gateway_acts_step: "gateway_acts onchain s = Some s' \<Longrightarrow> psys_step handle onchain s s'"
  by (auto simp: gateway_acts_def simp del: gateway_on_emulator.simps gateway_on_prover.simps
      split: list.splits if_splits outcome.splits prod.splits intro: psys_step.intros)

lemma split_nth: "i < length xs \<Longrightarrow> xs ! i = x \<Longrightarrow> xs = take i xs @ x # drop (Suc i) xs"
  using id_take_nth_drop [of i xs] by simp

lemma prover_acts_step:
  assumes "prover_acts handle i s = Some s'"
  shows "psys_step handle onchain s s'"
proof -
  from assms have i: "i < length (s_provers s)" by (auto simp: prover_acts_def split: if_splits)
  let ?ps = "take i (s_provers s)" and ?qs = "drop (Suc i) (s_provers s)"
  have up: "(s_provers s)[i := y] = ?ps @ y # ?qs" for y using i by (rule upd_conv_take_nth_drop)
  have n: "length ?ps = i" using i by simp
  note sp = split_nth [OF i]
  show ?thesis
  proof (cases "s_provers s ! i")
    case Starting
    with assms i psys_step.p_start [OF sp, of handle onchain] show ?thesis
      by (auto simp: prover_acts_def up)
  next
    case Waiting
    with assms i psys_step.p_recv [OF sp, of _ _ handle onchain] show ?thesis
      by (auto simp: prover_acts_def up split: list.splits)
  next
    case (Busy x)
    show ?thesis
    proof (cases "handle i x")
      case (Ret r)
      with Busy assms i n psys_step.p_answer [OF sp [OF Busy], of handle "fst r" "snd r" onchain] show ?thesis
        by (auto simp: prover_acts_def up split: prod.splits)
    next
      case (Panic m)
      with Busy assms i n psys_step.p_panic [OF sp [OF Busy], of handle m onchain] show ?thesis
        by (auto simp: prover_acts_def up)
    qed
  qed (use assms i in \<open>auto simp: prover_acts_def\<close>)
qed

lemma psys_exec_sound: "psys_exec handle onchain c s = Some s' \<Longrightarrow> psys_step handle onchain s s'"
  by (cases c) (auto intro: emulator_acts_step gateway_acts_step prover_acts_step)

lemma psys_exec_complete: "psys_step handle onchain s s' \<Longrightarrow> \<exists>c. psys_exec handle onchain c s = Some s'"
proof (induction rule: psys_step.induct)
  case (emu_send s r rs)
  then show ?case by (intro exI [of _ Emulator_acts]) (simp add: emulator_acts_def)
next
  case (emu_finish s)
  then show ?case by (intro exI [of _ Emulator_acts]) (simp add: emulator_acts_def)
next
  case (p_start s ps qs)
  then show ?case by (intro exI [of _ "Prover_acts (length ps)"]) (simp add: prover_acts_def)
next
  case (p_recv s ps qs x xs)
  then show ?case by (intro exI [of _ "Prover_acts (length ps)"]) (simp add: prover_acts_def)
next
  case (p_answer s ps x qs out ctl)
  then show ?case by (intro exI [of _ "Prover_acts (length ps)"]) (simp add: prover_acts_def)
next
  case (p_panic s ps x qs msg)
  then show ?case by (intro exI [of _ "Prover_acts (length ps)"]) (simp add: prover_acts_def)
qed (intro exI [of _ Gateway_acts],
    simp add: gateway_acts_def del: gateway_on_emulator.simps gateway_on_prover.simps)+

lemma run_schedule_count:
  "run_schedule handle onchain cs s = Some s' \<Longrightarrow> (psys_step handle onchain ^^ length cs) s s'"
proof (induction cs arbitrary: s)
  case (Cons c cs)
  then obtain s1 where "psys_exec handle onchain c s = Some s1" "run_schedule handle onchain cs s1 = Some s'"
    by (auto simp: bind_eq_Some_conv)
  with Cons.IH psys_exec_sound show ?case by (metis length_Cons relpowp_Suc_I2)
qed simp

lemma run_schedule_steps: "run_schedule handle onchain cs s = Some s' \<Longrightarrow> psys_steps handle onchain s s'"
  using run_schedule_count relpowp_imp_rtranclp by metis

section \<open>A small virtual machine\<close>

text \<open>
  Proofs are lists of the records they prove, combination is concatenation, and verification
  accepts exactly the proof of the expected list.
\<close>

definition demo_vm :: "nat list \<Rightarrow> (unit, unit, nat, nat list, nat list, nat list) pico_vm" where
  "demo_vm expected =
     \<lparr>vm_vk_enabled = False, vm_merkle_root = [], vm_zero_digest = [], vm_riscv_shape = [], vm_recursion_shape = [],
      vm_riscv_machine = [], vm_convert_machine = [], vm_combine_machine = [], vm_compress_machine = [],
      vm_compress_machine_c = [], vm_embed_machine = [], vm_base_machine = (\<lambda>m. m), vm_challenger = (\<lambda>m. m),
      vm_perm = (\<lambda>m. m), vm_observed_by = (\<lambda>pk c. c), vm_is_last = (\<lambda>r. r = last expected),
      vm_prove_record = (\<lambda>m k pk c sh r. Ret [r]),
      vm_convert_stdin = (\<lambda>vk root z m pr sh k l. pr), vm_convert_witness = (\<lambda>w. w),
      vm_prove_with_index = (\<lambda>m k w. Ret w), vm_combine_size = 2, vm_prove_two = (\<lambda>m a b f. Ret (a @ b)),
      vm_vks = (\<lambda>p. []), vm_proofs = (\<lambda>p. p), vm_recursion_stdin = (\<lambda>m vks ps c root. ps),
      vm_add_vk_merkle_proof = (\<lambda>x. x), vm_compress_vk_circuit = (\<lambda>m x. x), vm_compress_circuit = (\<lambda>m x. x),
      vm_compress_shape = [], vm_set_shape = (\<lambda>p sh. p), vm_embed_vk_circuit = (\<lambda>m x. x),
      vm_embed_circuit = (\<lambda>m x. x), vm_witness_stream = (\<lambda>v. case v of WithVk x \<Rightarrow> x | NoVk x \<Rightarrow> x),
      vm_runtime = (\<lambda>prog perm w. Inr w), vm_complement = (\<lambda>m r. r), vm_setup_keys = (\<lambda>m p. ([], [])),
      vm_keys_witness = (\<lambda>pk vk rs. concat rs), vm_prove = (\<lambda>m w. Ret w), vm_embed_prove = (\<lambda>m w. Ret w),
      vm_verify = (\<lambda>m p vk. Inr ()),
      vm_embed_verify = (\<lambda>m e vk. if e = expected then Inr () else Inl ''invalid proof'')\<rparr>"

definition demo_task :: "(unit, unit, unit) proving_task" where
  "demo_task = \<lparr>task_key = ProvingKey_new (replicate 64 (CHR ''0'')) ''task'', task_program = (), task_pk = (), task_vk = (),
     task_inputs = None, use_gpu = False\<rparr>"

definition demo_onchain :: "nat list \<Rightarrow> (string + bytes) outcome" where
  "demo_onchain e = Ret (Inr (map of_nat e))"

lemma demo_vm_returns: "vm_returns (demo_vm expected)"
  by (auto simp: vm_returns_def demo_vm_def)

lemma demo_covers: "covers (demo_vm expected) demo_task recs p i k \<Longrightarrow> p = map (\<lambda>j. recs ! j) [i..<Suc k]"
proof (induction rule: covers.induct)
  case (leaf i w res)
  then show ?case by (auto simp: riscv_convert_process_def demo_vm_def bind_outcome_eq_Ret Let_def)
next
  case (node a i j b k flag c)
  then have "c = map (\<lambda>j. recs ! j) ([i..<Suc j] @ [Suc j..<Suc k])"
    by (simp add: demo_vm_def del: upt_Suc)
  moreover have "[i..<Suc j] @ [Suc j..<Suc k] = [i..<Suc k]"
    using covers_range [OF node.hyps(1)] covers_range [OF node.hyps(2)]
    by (metis le_SucI le_Suc_eq upt_add_eq_append le_add_diff_inverse)
  ultimately show ?case by (metis map_append)
qed

lemma demo_embeds: "embeds (demo_vm expected) demo_task p e \<longleftrightarrow> e = p \<and> p = expected"
  by (auto simp: embeds_def compress_prove_def embed_prove_def run_recursion_def demo_vm_def Let_def split: if_splits)

end
