(* ===== verification/Proving_Liveness.thy ===== *)
theory Proving_Liveness
  imports Proving_Safety Proving_Schedule
begin

text \<open>
  Termination and completion of a proving task. A weight of the work left decreases with
  every step of every participant, so each run is bounded by a number linear in the records
  and the provers. A reachable state without steps, when the program has at least two
  chunks, no prover call panics and the whole proof verifies, has sent its completion.
\<close>

section \<open>The work left\<close>

fun emu_weight :: "('r, 'p, 'e) gateway_msg \<Rightarrow> nat" where
  "emu_weight (Riscv _ _ _) = 9"
| "emu_weight _ = 1"

fun prover_weight :: "'m prover_state \<Rightarrow> nat" where
  "prover_weight Starting = 2"
| "prover_weight (Busy _) = 3"
| "prover_weight _ = 0"

definition weight :: "('r, 'p, 'e) psys \<Rightarrow> nat" where
  "weight s =
     10 * length (s_pending s) + (if s_done s then 0 else 2) + sum_list (map emu_weight (s_emu s))
     + 4 * handler_nodes (sys_handler s) + 4 * length (s_to_provers s)
     + sum_list (map prover_weight (s_provers s)) + length (s_to_gw s)"

lemma weight_init: "weight (psys_init recs n) = 10 * length recs + 2 + 2 * n"
  by (simp add: weight_def psys_init_def gateway_new_def GatewayHandler_new_def ProofTree_default_def btree_new_def
      sum_list_replicate)

lemma emu_weight_pos: "0 < emu_weight x"
  by (cases x) auto

lemma prover_after_weight [simp]: "prover_weight (prover_after ctl) = 0"
  by (cases ctl) (simp_all add: prover_after_def)

lemma gateway_report_weight:
  assumes gw: "gw_inv s m" and ms: "msgs_inv good final recs s" and m: "m < 2 ^ 64"
    and x: "s_to_gw s = x # xs" and on: "gateway_on_prover onchain (Some x) (s_gw s) = Ret (g, out, ctl)"
  shows "handler_nodes (gw_handler g) + length out = handler_nodes (sys_handler s)"
proof -
  from ms x have "is_report x" by (simp add: msgs_inv_def)
  then consider k p where "result_of x = Some (k, p)" | "x = RequestTask" | e where "x = Embed e" | "x = Exit"
    by (cases x rule: is_report.cases) auto
  then show ?thesis
  proof cases
    case (1 k p)
    let ?f = "(k, start_chunk p, end_chunk p)"
    from gw have inv: "handler_inv (gw_handler (s_gw s)) m" and e: "embed_proof (gw_handler (s_gw s)) = None"
      by (simp_all add: gw_inv_def)
    have "?f \<in># handler_flights (gw_handler (s_gw s))"
      using flights_member [OF gw, of x ?f] x result_of_cases(3) [OF 1] by simp
    with inv m e 1 show ?thesis
      by (cases rule: on_prover_result [where onchain = onchain]) (use on in auto)
  next
    case 2
    with on show ?thesis by simp
  next
    case (3 e)
    with on show ?thesis by (auto simp: on_prover_embed bind_outcome_eq_Ret simp del: gateway_on_prover.simps)
  next
    case 4
    with gw x show ?thesis by (simp add: gw_inv_def)
  qed
qed

lemma gateway_emulator_weight:
  assumes gw: "gw_inv s m" and emu: "emu_inv recs s m" and len: "length recs < 2 ^ 64"
    and x: "s_emu s = x # xs" and on: "gateway_on_emulator (Some x) (s_gw s) = Ret (g, out, ctl)"
  shows "4 * handler_nodes (gw_handler g) + 4 * length out < 4 * handler_nodes (sys_handler s) + emu_weight x"
  using emu x
proof (cases rule: emu_inv_Cons)
  case request
  from gw have "handler_inv (gw_handler (s_gw s)) m" by (simp add: gw_inv_def)
  with on_emulator_request [of "s_gw s" m "\<lparr>rreq_chunk_index = of_nat m, rreq_record = recs ! m\<rparr>"
      "usize_to_string (of_nat m)" "''''"] request len on
  show ?thesis by (auto simp: riscv_task_def simp del: gateway_on_emulator.simps)
next
  case finished
  from gw have "embed_proof (gw_handler (s_gw s)) = None" by (simp add: gw_inv_def)
  with finished on show ?thesis by (auto simp: on_emulator_complete simp del: gateway_on_emulator.simps)
qed

section \<open>Every step lowers it\<close>

context prover_contract
begin

lemma answer_length:
  assumes inv: "psys_inv good final recs onchain s m" and b: "s_provers s = ps @ Busy x # qs"
    and h: "handle (length ps) x = Ret (out, ctl)"
  shows "length out = 2"
proof -
  from inv have ms: "msgs_inv good final recs s" by (simp add: psys_inv_def)
  have "task_ok recs x" using ms busy_task [OF b] by (simp add: msgs_inv_def)
  moreover have "proof_ok good final recs p" if "p \<in> msg_proofs x" for p
    using that ms busy_task [OF b] by (auto simp: msgs_inv_def all_proofs_def)
  ultimately show ?thesis using h by (rule answer_cases) auto
qed

lemma psys_step_weight:
  assumes step: "psys_step handle onchain s s'" and inv: "psys_inv good final recs onchain s m"
    and len: "length recs < 2 ^ 64"
  shows "weight s' < weight s"
proof -
  from inv have emu: "emu_inv recs s m" and gw: "s_run s = Running \<Longrightarrow> gw_inv s m"
    and ms: "msgs_inv good final recs s" by (simp_all add: psys_inv_def)
  have m: "m < 2 ^ 64" using emu len by (simp add: emu_inv_def)
  from step show ?thesis
  proof cases
    case (gw_emu x xs g out ctl)
    with gateway_emulator_weight [OF gw emu len gw_emu(3,4)] show ?thesis by (simp add: weight_def)
  next
    case (gw_emu_panic x xs msg)
    then show ?thesis using emu_weight_pos [of x] by (simp add: weight_def)
  next
    case (gw_prover x xs g out ctl)
    with gateway_report_weight [OF gw ms m gw_prover(4,5)] show ?thesis by (simp add: weight_def)
  next
    case (p_answer ps x qs out ctl)
    with answer_length [OF inv] show ?thesis by (simp add: weight_def)
  qed (simp_all add: weight_def riscv_task_def prover_start_def)
qed

lemma psys_run_bounded:
  assumes "(psys_step handle onchain ^^ k) (psys_init recs n) s" and len: "length recs < 2 ^ 64"
  shows "k + weight s \<le> 10 * length recs + 2 + 2 * n"
  using assms(1)
proof (induction k arbitrary: s)
  case 0
  then show ?case by (auto simp: weight_init)
next
  case (Suc k)
  then obtain t where t: "(psys_step handle onchain ^^ k) (psys_init recs n) t" "psys_step handle onchain t s"
    by auto
  from t(1) have "psys_steps handle onchain (psys_init recs n) t" by (rule relpowp_imp_rtranclp)
  with psys_reach_inv len obtain m where "psys_inv good final recs onchain t m" by blast
  with psys_step_weight t(2) len have "weight s < weight t" by blast
  with Suc.IH [OF t(1)] show ?case by simp
qed

section \<open>States without steps\<close>

text \<open>No prover dies when no task makes a prover call panic.\<close>

lemma psys_reach_alive:
  assumes "psys_steps handle onchain (psys_init recs n) s" and len: "length recs < 2 ^ 64"
    and ret: "\<And>i x. task_ok recs x \<Longrightarrow> returns (handle i x)"
  shows "Dead \<notin> set (s_provers s) \<and> length (s_provers s) = n"
  using assms(1)
proof (induction rule: rtranclp_induct)
  case base
  show ?case by (simp add: psys_init_def)
next
  case (step s s')
  with psys_reach_inv len obtain m where inv: "psys_inv good final recs onchain s m" by blast
  have ok: "task_ok recs x" if "s_provers s = ps @ Busy x # qs" for ps x qs
    using busy_task [OF that] inv by (simp add: psys_inv_def msgs_inv_def)
  from step(2,3) show ?case
  proof cases
    case (p_answer ps x qs out ctl)
    with step.IH show ?thesis by (cases ctl) (auto simp: prover_after_def)
  next
    case (p_panic ps x qs msg)
    with ret [OF ok, of ps x qs "length ps"] show ?thesis by simp
  qed (use step.IH in auto)
qed

end

lemma stuck_participants:
  assumes stuck: "\<And>s'. \<not> psys_step handle onchain s s'"
  shows "s_pending s = [] \<and> s_done s" and "s_run s = Running \<Longrightarrow> s_emu s = [] \<and> s_to_gw s = []"
    and "q \<in> set (s_provers s) \<Longrightarrow> q \<in> {Waiting, Exited, Dead}"
    and "Waiting \<in> set (s_provers s) \<Longrightarrow> s_to_provers s = []"
proof -
  have no: "psys_exec handle onchain c s = None" for c by (cases "psys_exec handle onchain c s") (auto dest: psys_exec_sound simp: stuck)
  show "s_pending s = [] \<and> s_done s"
    using no [of Emulator_acts] by (auto simp: emulator_acts_def split: list.splits if_splits)
  show "s_run s = Running \<Longrightarrow> s_emu s = [] \<and> s_to_gw s = []"
    using no [of Gateway_acts] by (auto simp: gateway_acts_def split: list.splits if_splits)
  have at: "prover_acts handle i s = None" for i using no [of "Prover_acts i"] by simp
  show "q \<in> set (s_provers s) \<Longrightarrow> q \<in> {Waiting, Exited, Dead}"
    using at by (force simp: prover_acts_def in_set_conv_nth split: prover_state.splits)
  show "Waiting \<in> set (s_provers s) \<Longrightarrow> s_to_provers s = []"
  proof -
    assume "Waiting \<in> set (s_provers s)"
    then obtain i where "i < length (s_provers s)" "s_provers s ! i = Waiting" by (auto simp: in_set_conv_nth)
    with at [of i] show ?thesis by (cases "s_to_provers s") (auto simp: prover_acts_def)
  qed
qed

lemma settled_tree:
  assumes inv: "tree_inv t m" and none: "open_nodes t = {#}" and m: "0 < m"
  shows "\<exists>p \<in> tree_proofs t. unat (start_chunk p) = 0 \<and> Suc (unat (end_chunk p)) = m"
proof -
  have pr: "is_proved (snd e)" if "e \<in> set (tree t)" for e
    using that none by (auto simp: open_nodes_def filter_empty_conv) (metis prod.collapse)
  from inv m obtain k n es where t: "tree t = (k, n) # es"
    by (cases "tree t") (auto simp: tree_inv_def)
  have "is_proved n" using pr [of "(k, n)"] t by simp
  then have "es = []"
    using inv pr [of "hd es"] t by (cases es) (auto simp: tree_inv_def neighbours_Cons)
  moreover obtain p where "n = Proved p" using \<open>is_proved n\<close> by (cases n) auto
  ultimately show ?thesis using inv t by (auto simp: tree_inv_def tree_proofs_def)
qed

context prover_contract
begin

lemma stuck_stopped:
  assumes inv: "psys_inv good final recs onchain s m" and acc: "accepting good final recs"
    and alive: "Dead \<notin> set (s_provers s)" "s_provers s \<noteq> []"
    and oc: "\<And>e. embed_ok good final e \<Longrightarrow> returns (onchain e)"
    and stuck: "\<And>s'. \<not> psys_step handle onchain s s'"
  shows "s_run s = Stopped"
proof (rule ccontr)
  assume "s_run s \<noteq> Stopped"
  moreover have "s_run s \<noteq> Crashed" using inv oc by (fastforce simp: psys_inv_def end_inv_def returns_iff)
  ultimately have run: "s_run s = Running" by (cases "s_run s") auto
  note st = stuck_participants [OF stuck]
  from inv run have gw: "gw_inv s m" and emu: "emu_inv recs s m" and ms: "msgs_inv good final recs s"
    by (simp_all add: psys_inv_def)
  from st(1) st(2) [OF run] have q: "s_pending s = []" "s_emu s = []" "s_to_gw s = []" by auto
  with emu have "m \<le> length recs" "send_records (of_nat m) (drop m recs) = ([] :: ('r, 'p, 'e) gateway_msg list)"
    by (auto simp: emu_inv_def)
  then have "m = length recs" by (cases "drop m recs") auto
  with acc have m: "m = length recs" "0 < m" by (auto simp: accepting_def)
  from gw alive q have fl: "flights s = handler_flights (sys_handler s)" and ex: "Exited \<notin> set (s_provers s)"
    by (auto simp: gw_inv_def)
  have w: "q = Waiting" if "q \<in> set (s_provers s)" for q using st(3) [OF that] that alive(1) ex by auto
  then have "map prover_msgs (s_provers s) = map (\<lambda>_. []) (s_provers s)" by (intro map_cong) force+
  moreover have "s_to_provers s = []" using w alive(2) by (intro st(4)) (cases "s_provers s"; force)
  ultimately have "handler_flights (sys_handler s) = {#}" using q fl by (simp add: flights_def task_msgs_def map_replicate_const)
  moreover have "handler_inv (sys_handler s) m" using gw by (simp add: gw_inv_def)
  ultimately obtain p where "p \<in> all_proofs s" "unat (start_chunk p) = 0" "Suc (unat (end_chunk p)) = m"
    using settled_tree [of "proof_tree (sys_handler s)" m] m(2) by (auto simp: all_proofs_def)
  with ms acc m(1) show False by (auto simp: msgs_inv_def proof_ok_def)
qed

lemma stopped_result:
  assumes "psys_inv good final recs onchain s m" and "s_run s = Stopped" and "s_done s"
  shows "\<exists>bs. prove_task_result s = Some (Inr bs)"
  using assms by (auto simp: psys_inv_def end_inv_def prove_task_result_def)

text \<open>From every reachable state a state without steps can be reached.\<close>

lemma psys_reach_stuck:
  assumes "psys_steps handle onchain (psys_init recs n) s" and len: "length recs < 2 ^ 64"
  shows "\<exists>s'. psys_steps handle onchain s s' \<and> (\<forall>t. \<not> psys_step handle onchain s' t)"
  using assms(1)
proof (induction "weight s" arbitrary: s rule: less_induct)
  case less
  show ?case
  proof (cases "\<exists>t. psys_step handle onchain s t")
    case True
    then obtain t where t: "psys_step handle onchain s t" ..
    from less.prems psys_reach_inv len obtain m where "psys_inv good final recs onchain s m" by blast
    with psys_step_weight t len have "weight t < weight s" by blast
    moreover have "psys_steps handle onchain (psys_init recs n) t" using less.prems t by simp
    ultimately show ?thesis using less.hyps t by (meson converse_rtranclp_into_rtranclp)
  qed auto
qed

lemma psys_completes:
  assumes reach: "psys_steps handle onchain (psys_init recs n) s" and len: "length recs < 2 ^ 64" and n: "0 < n"
    and acc: "accepting good final recs" and ret: "\<And>i x. task_ok recs x \<Longrightarrow> returns (handle i x)"
    and oc: "\<And>e. embed_ok good final e \<Longrightarrow> returns (onchain e)"
    and stuck: "\<And>s'. \<not> psys_step handle onchain s s'"
  shows "\<exists>bs. prove_task_result s = Some (Inr bs)"
proof -
  obtain m where inv: "psys_inv good final recs onchain s m" using psys_reach_inv [OF reach len] ..
  have "Dead \<notin> set (s_provers s)" "s_provers s \<noteq> []" using psys_reach_alive [OF reach len ret] n by auto
  then have "s_run s = Stopped" by (rule stuck_stopped [OF inv acc _ _ oc stuck])
  moreover have "s_done s" using stuck_participants(1) [OF stuck] by simp
  ultimately show ?thesis by (rule stopped_result [OF inv])
qed

end

end
