(* ===== verification/Proving_Properties.thy ===== *)
theory Proving_Properties
  imports Proving_Liveness
begin

text \<open>
  What a proving task guarantees, for the real provers: the lemmas over the prover contract,
  instantiated with the prover loop and written out over the definitions of the model. The
  hypothesis that the program has fewer than \<open>2 ^ 64\<close> chunks keeps \<^verbatim>\<open>chunk_index\<close> from
  wrapping round.
\<close>

section \<open>Instances\<close>

abbreviation reachable where
  "reachable vm task recs n onchain s \<equiv> psys_steps (task_handle vm task) onchain (psys_init recs n) s"

lemma task_handle_eq: "task_handle vm task = (\<lambda>i. prover_handle vm (prover_at vm task i))"
  by (simp add: task_handle_def fun_eq_iff)

lemma reachable_inv:
  assumes "reachable vm task recs n onchain s" and "length recs < 2 ^ 64"
  shows "\<exists>m. psys_inv (covers vm task recs) (embeds vm task) recs onchain s m"
  using pw.psys_reach_inv [of vm task onchain recs n s] assms by (simp add: task_handle_eq)

lemma vm_returns_compress: "vm_returns vm \<Longrightarrow> returns (compress_prove vm m p)"
  by (auto simp: vm_returns_def compress_prove_def run_recursion_def Let_def split: prod.splits sum.splits)
    (metis sum.distinct(1))+

lemma vm_returns_embed: "vm_returns vm \<Longrightarrow> returns (embed_prove vm m p)"
  by (auto simp: vm_returns_def embed_prove_def run_recursion_def Let_def split: prod.splits sum.splits)
    (metis sum.distinct(1))+

lemma vm_returns_finish:
  assumes "vm_returns vm"
  shows "returns (finish_proof vm (prover_at vm task i) res)"
proof -
  obtain p where p: "compress_prove vm (vm_compress_machine vm) (inner (cres_proof res)) = Ret p"
    using vm_returns_compress [OF assms] by (metis returns_iff)
  obtain ep where "embed_prove vm (vm_embed_machine vm) p = Ret ep"
    using vm_returns_embed [OF assms] by (metis returns_iff)
  with p show ?thesis by (simp add: finish_proof_eq split: sum.splits)
qed

lemma vm_returns_handle:
  assumes vm: "vm_returns vm" and ok: "task_ok recs x"
  shows "returns (task_handle vm task i x)"
proof (cases x rule: is_task.cases)
  case (1 q tid ip)
  from vm have "returns (riscv_convert_process vm (riscv_convert (prover_at vm task i)) q (vk_root (prover_at vm task i)))"
    by (simp add: riscv_convert_process_def vm_returns_def Let_def outcome_simps) (metis returns_iff)
  with 1 show ?thesis by (auto simp: task_handle_def outcome_simps returns_iff)
next
  case (2 q tid ip)
  with ok obtain a b where ab: "creq_proofs q = [a, b]" "adjacent a b" by auto
  with vm have "returns (combine_process vm (combine (prover_at vm task i)) q)"
    by (simp add: combine_process_def vm_returns_def Let_def outcome_simps adjacent_word) (metis returns_iff)
  then obtain res where res: "combine_process vm (combine (prover_at vm task i)) q = Ret res" by (metis returns_iff)
  have "returns (if flag_complete q then finish_proof vm (prover_at vm task i) res else Ret None)"
    by (simp add: vm_returns_finish [OF vm])
  then obtain d where "(if flag_complete q then finish_proof vm (prover_at vm task i) res else Ret None) = Ret d"
    by (metis returns_iff)
  with 2 res show ?thesis by (simp add: task_handle_def split: option.splits)
qed (use ok in auto)

text \<open>Verification accepts every proof of the complete run of at least two chunks.\<close>

definition verifier_accepts :: "('pk, 'vk, 'r, 'p, 'e, 'o) pico_vm \<Rightarrow> ('g, 'pk, 'vk) proving_task \<Rightarrow> 'r list \<Rightarrow> bool" where
  "verifier_accepts vm task recs \<longleftrightarrow>
     (\<forall>p. covers vm task recs p 0 (length recs - 1) \<longrightarrow> (\<exists>ep. embeds vm task p ep))"

text \<open>Verification accepts nothing else: no proof of a proper prefix of the run.\<close>

definition verifier_sound :: "('pk, 'vk, 'r, 'p, 'e, 'o) pico_vm \<Rightarrow> ('g, 'pk, 'vk) proving_task \<Rightarrow> 'r list \<Rightarrow> bool" where
  "verifier_sound vm task recs \<longleftrightarrow>
     (\<forall>p j ep. covers vm task recs p 0 j \<longrightarrow> embeds vm task p ep \<longrightarrow> Suc j = length recs)"

lemma stuck_has_result:
  assumes "reachable vm task recs n onchain s" and "length recs < 2 ^ 64" and "0 < n" and "2 \<le> length recs"
    and "vm_returns vm" and "verifier_accepts vm task recs" and "\<And>ep. returns (onchain ep)"
    and "\<And>s'. \<not> psys_step (task_handle vm task) onchain s s'"
  shows "\<exists>bs. prove_task_result s = Some (Inr bs)"
proof (rule pw.psys_completes [of vm task onchain recs n s])
  show "psys_steps (\<lambda>i. prover_handle vm (prover_at vm task i)) onchain (psys_init recs n) s"
    using assms(1) by (simp add: task_handle_eq)
  show "accepting (covers vm task recs) (embeds vm task) recs"
    using assms(4,6) by (auto simp: accepting_def verifier_accepts_def)
  show "returns (prover_handle vm (prover_at vm task i) x)" if "task_ok recs x" for i x
    using vm_returns_handle [OF assms(5) that, of task i] by (simp add: task_handle_def)
  show "\<not> psys_step (\<lambda>i. prover_handle vm (prover_at vm task i)) onchain s s'" for s'
    using assms(8) by (simp add: task_handle_eq)
qed (use assms in auto)

lemma reachable_stuck:
  assumes "reachable vm task recs n onchain s" and "length recs < 2 ^ 64"
  shows "\<exists>s'. psys_steps (task_handle vm task) onchain s s' \<and> (\<forall>t. \<not> psys_step (task_handle vm task) onchain s' t)"
  using pw.psys_reach_stuck [of vm task onchain recs n s] assms by (simp add: task_handle_eq)

text \<open>The embed proof behind a result.\<close>

lemma result_embed:
  assumes "reachable vm task recs n onchain s" and "length recs < 2 ^ 64"
    and "prove_task_result s = Some (Inr bs)"
  obtains p j ep r where "covers vm task recs p 0 j" "0 < j" "embeds vm task p ep" "onchain ep = Ret r"
    "bs = (case r of Inr proof_bytes \<Rightarrow> proof_bytes | Inl _ \<Rightarrow> [])"
proof -
  obtain m where inv: "psys_inv (covers vm task recs) (embeds vm task) recs onchain s m"
    using reachable_inv [OF assms(1,2)] ..
  from inv assms(3) have "s_run s = Stopped"
    by (cases "s_run s") (auto simp: psys_inv_def end_inv_def gw_inv_def prove_task_result_def split: option.splits if_splits)
  with inv assms(3) that show ?thesis
    by (auto simp: psys_inv_def end_inv_def prove_task_result_def embed_ok_def split: if_splits)
qed

text \<open>When nothing verifies, or there is no prover, there is no result; an error means that the on-chain phase panicked.\<close>

lemma unverified_no_result:
  assumes "reachable vm task recs n onchain s" and "length recs < 2 ^ 64"
    and "\<And>ep. \<not> embed_ok (covers vm task recs) (embeds vm task) ep"
  shows "prove_task_result s = None"
proof -
  obtain m where "psys_inv (covers vm task recs) (embeds vm task) recs onchain s m"
    using reachable_inv [OF assms(1,2)] ..
  with assms(3) show ?thesis
    by (cases "s_run s") (auto simp: psys_inv_def end_inv_def gw_inv_def prove_task_result_def)
qed

lemma result_error:
  assumes "reachable vm task recs n onchain s" and "length recs < 2 ^ 64" and "prove_task_result s = Some (Inl e)"
  shows "\<exists>ep msg. onchain ep = Panic msg"
proof -
  obtain m where "psys_inv (covers vm task recs) (embeds vm task) recs onchain s m"
    using reachable_inv [OF assms(1,2)] ..
  with assms(3) show ?thesis
    by (cases "s_run s") (auto simp: psys_inv_def end_inv_def gw_inv_def prove_task_result_def split: if_splits option.splits)
qed

lemma no_provers_quiet:
  assumes "reachable vm task recs 0 onchain s" and len: "length recs < 2 ^ 64"
  shows "s_provers s = [] \<and> s_to_gw s = [] \<and> s_run s = Running"
  using assms(1)
proof (induction rule: rtranclp_induct)
  case base
  show ?case by (simp add: psys_init_def)
next
  case (step s1 s2)
  obtain m where inv: "psys_inv (covers vm task recs) (embeds vm task) recs onchain s1 m"
    using reachable_inv [OF step.hyps(1) len] ..
  with step.IH have gw: "gw_inv s1 m" and emu: "emu_inv recs s1 m" by (simp_all add: psys_inv_def)
  from step.hyps(2) show ?case
  proof cases
    case (gw_emu x xs g out ctl)
    with gateway_emu_returns [OF gw emu len] have "ctl = Continue" by fastforce
    with gw_emu step.IH show ?thesis by (simp add: run_after_def)
  next
    case (gw_emu_panic x xs msg)
    with gateway_emu_returns [OF gw emu len] show ?thesis by fastforce
  qed (use step.IH in auto)
qed

lemma no_provers_no_result:
  assumes "reachable vm task recs 0 onchain s" and "length recs < 2 ^ 64"
  shows "prove_task_result s = None"
  using no_provers_quiet [OF assms] reachable_inv [OF assms]
  by (auto simp: psys_inv_def gw_inv_def prove_task_result_def)

section \<open>Demo runs\<close>

lemma demo_accepts: "recs = expected \<Longrightarrow> 0 < length recs \<Longrightarrow> verifier_accepts (demo_vm expected) demo_task recs"
  unfolding verifier_accepts_def demo_embeds
  by (auto dest!: demo_covers simp: map_nth simp del: upt_Suc)

lemma demo_sound: "verifier_sound (demo_vm recs) demo_task recs"
  unfolding verifier_sound_def demo_embeds by (auto dest!: demo_covers simp del: upt_Suc) (metis length_map length_upt minus_nat.diff_0)

lemma demo_run_completes:
  assumes "2 \<le> length recs" and "length recs < 2 ^ 64" and "\<And>ep. returns (onchain ep)"
  shows "\<exists>s. reachable (demo_vm recs) demo_task recs 1 onchain s \<and> (\<exists>bs. prove_task_result s = Some (Inr bs))"
proof -
  obtain s where s: "reachable (demo_vm recs) demo_task recs 1 onchain s"
    "\<And>t. \<not> psys_step (task_handle (demo_vm recs) demo_task) onchain s t"
    using reachable_stuck [of "demo_vm recs" demo_task onchain recs 1 "psys_init recs 1"] assms(2) by auto
  have "verifier_accepts (demo_vm recs) demo_task recs" using assms(1) by (intro demo_accepts) auto
  then have "\<exists>bs. prove_task_result s = Some (Inr bs)"
    using s(2) assms by (intro stuck_has_result [OF s(1)] demo_vm_returns) auto
  with s(1) show ?thesis by blast
qed

lemma demo_completes:
  "\<exists>s. reachable (demo_vm [10, 11]) demo_task [10, 11] 1 demo_onchain s \<and>
     (\<exists>bs. prove_task_result s = Some (Inr bs))"
  by (rule demo_run_completes) (simp_all add: demo_onchain_def)

text \<open>A run up to the last combine task, evaluated step by step.\<close>

definition demo_schedule :: "choice list" where
  "demo_schedule = replicate 3 Emulator_acts @ replicate 3 Gateway_acts @ replicate 5 (Prover_acts 0)
     @ replicate 5 Gateway_acts @ [Prover_acts 0]"

definition demo_run where
  "demo_run onchain cs = run_schedule (task_handle (demo_vm [10, 11]) demo_task) onchain cs (psys_init [10, 11] 1)"

definition demo_state :: "(nat, nat list, nat list) psys" where
  "demo_state = the (demo_run demo_onchain demo_schedule)"

lemma demo_state_run: "demo_run demo_onchain demo_schedule = Some demo_state"
proof -
  have "\<not> Option.is_none (demo_run demo_onchain demo_schedule)" by code_simp
  then show ?thesis by (simp add: demo_state_def Option.is_none_def split: option.splits)
qed

lemma demo_state_reachable: "reachable (demo_vm [10, 11]) demo_task [10, 11] 1 demo_onchain demo_state"
  using demo_state_run run_schedule_steps unfolding demo_run_def by blast

lemma demo_state_tasks: "task_msgs demo_state =
    [Combine (CombineRequest \<lparr>flag_complete = True, creq_chunk_index = 1,
       creq_proofs = [\<lparr>inner = [10], start_chunk = 0, end_chunk = 0\<rparr>, \<lparr>inner = [11], start_chunk = 1, end_chunk = 1\<rparr>]\<rparr>)
     ''1'' '''']"
  by code_simp

section \<open>Safety\<close>

text \<open>
  C1. A successful result of a proving task is the on-chain proof of a verified proof. In
  every interleaving, when \<^verbatim>\<open>prove_task\<close> returns bytes, there is a recursion proof that is a
  combination tree over the converted proofs of the emulation records 0 to \<open>j\<close>, in order and
  without gaps, with \<open>j > 0\<close>; compressing and embedding it gave an embed proof that verified
  against the task's key; and the bytes are what the on-chain phase made of that embed
  proof, or empty when that phase reported an error.
\<close>

theorem completion_is_verified:
  assumes "reachable vm task recs n onchain s" and "length recs < 2 ^ 64"
    and "prove_task_result s = Some (Inr bs)"
  shows "\<exists>p j ep r. covers vm task recs p 0 j \<and> 0 < j \<and> embeds vm task p ep \<and> onchain ep = Ret r \<and>
    bs = (case r of Inr proof_bytes \<Rightarrow> proof_bytes | Inl _ \<Rightarrow> [])"
  using assms by (rule result_embed) blast

theorem completion_is_verified_witness:
  "\<exists>p j ep r bs. covers (demo_vm [10, 11]) demo_task [10, 11] p 0 j \<and> 0 < j \<and>
     embeds (demo_vm [10, 11]) demo_task p ep \<and> demo_onchain ep = Ret r \<and>
     bs = (case r of Inr proof_bytes \<Rightarrow> proof_bytes | Inl _ \<Rightarrow> [])"
proof -
  obtain s bs where s: "reachable (demo_vm [10, 11]) demo_task [10, 11] 1 demo_onchain s"
    "prove_task_result s = Some (Inr bs)"
    using demo_completes by blast
  from completion_is_verified [OF s(1) _ s(2)] show ?thesis by auto
qed

text \<open>
  C9. With a verifier that accepts no proof of a proper prefix, a successful result proves
  the whole run: the verified proof covers every emulation record from the first to the last.
\<close>

theorem completion_covers_run:
  assumes "reachable vm task recs n onchain s" and "length recs < 2 ^ 64"
    and "verifier_sound vm task recs" and "prove_task_result s = Some (Inr bs)"
  shows "\<exists>p ep. covers vm task recs p 0 (length recs - 1) \<and> embeds vm task p ep \<and> 2 \<le> length recs"
proof -
  obtain p j ep where p: "covers vm task recs p 0 j" "0 < j" "embeds vm task p ep"
    using assms(1,2,4) by (rule result_embed)
  with assms(3) have "Suc j = length recs" by (auto simp: verifier_sound_def)
  then have "length recs - 1 = j" by simp
  with p \<open>Suc j = length recs\<close> show ?thesis by auto
qed

theorem completion_covers_run_witness:
  "\<exists>p ep. covers (demo_vm [10, 11]) demo_task [10, 11] p 0 1 \<and> embeds (demo_vm [10, 11]) demo_task p ep"
proof -
  obtain s bs where s: "reachable (demo_vm [10, 11]) demo_task [10, 11] 1 demo_onchain s"
    "prove_task_result s = Some (Inr bs)"
    using demo_completes by blast
  from completion_covers_run [OF s(1) _ demo_sound s(2)] show ?thesis by auto
qed



text \<open>
  C8. No misaligned combination: every combine task under way, waiting or being worked on,
  holds exactly two proofs, the second starting where the first ends, so neither the length
  assertion nor the adjacency assertion of the combine prover can fire; it panics only when
  pico-vm does.
\<close>

theorem combine_tasks_adjacent:
  assumes "reachable vm task recs n onchain s" and "length recs < 2 ^ 64" and "2 \<le> vm_combine_size vm"
    and "Combine (CombineRequest q) tid ip \<in> set (task_msgs s)"
  shows "\<exists>a b. creq_proofs q = [a, b] \<and> combine_process vm c q =
    bind_outcome (vm_prove_two vm (cp_machine c) (inner a) (inner b) (flag_complete q))
      (\<lambda>pr. Ret \<lparr>cres_chunk_index = creq_chunk_index q, cres_proof = IndexedProof_new pr (start_chunk a) (end_chunk b)\<rparr>)"
proof -
  have "task_ok recs (Combine (CombineRequest q) tid ip)"
    using reachable_inv [OF assms(1,2)] assms(4) by (auto simp: psys_inv_def msgs_inv_def)
  then obtain a b where "creq_proofs q = [a, b]" "adjacent a b" by auto
  with assms(3) show ?thesis by (auto simp: combine_process_def get_inner_def adjacent_word)
qed

theorem combine_tasks_adjacent_witness:
  "\<exists>a b. [\<lparr>inner = [10], start_chunk = 0, end_chunk = 0\<rparr>, \<lparr>inner = [11], start_chunk = 1, end_chunk = 1\<rparr>] = [a, b] \<and>
     unat (start_chunk b) = Suc (unat (end_chunk a)) \<and>
     combine_process (demo_vm [10, 11]) (CombineProver_new (demo_vm [10, 11]) ''p'')
       \<lparr>flag_complete = True, creq_chunk_index = 1, creq_proofs = [a, b]\<rparr> =
     Ret \<lparr>cres_chunk_index = 1, cres_proof = \<lparr>inner = [10, 11 :: nat], start_chunk = 0, end_chunk = 1\<rparr>\<rparr>"
  using combine_tasks_adjacent [OF demo_state_reachable, of _ "''1''" "''''" "CombineProver_new (demo_vm [10, 11]) ''p''"]
  by (simp add: demo_state_tasks) (simp add: demo_vm_def IndexedProof_new_def)

text \<open>
  C5. Nothing is lost or duplicated: while the gateway runs, no embed proof is on its way
  and no prover has died, the tasks and results under way are exactly one per node in
  progress of the proof tree, with the same key and the same chunks.
\<close>

theorem tasks_match_tree:
  assumes "reachable vm task recs n onchain s" and "length recs < 2 ^ 64" and "s_run s = Running"
    and "\<And>ep. Embed ep \<notin> set (s_to_gw s)" and "Dead \<notin> set (s_provers s)"
  shows "flights s = open_nodes (proof_tree (gw_handler (s_gw s)))"
  using reachable_inv [OF assms(1,2)] assms(3-5) by (auto simp: psys_inv_def gw_inv_def)

theorem tasks_match_tree_witness:
  "flights demo_state = open_nodes (proof_tree (gw_handler (s_gw demo_state))) \<and> flights demo_state = {#(1, 0, 1)#}"
proof -
  have "s_run demo_state = Running" "s_to_gw demo_state = []" "Dead \<notin> set (s_provers demo_state)"
    by code_simp+
  with tasks_match_tree [OF demo_state_reachable] show ?thesis by (simp add: flights_def demo_state_tasks)
qed

lemma emu_inv_messages:
  assumes "emu_inv recs s m" and "x \<in> set (s_emu s)"
  shows "(\<exists>i < length recs. x = riscv_task (of_nat i) (recs ! i)) \<or> x = EmulatorComplete"
proof -
  from assms(1) obtain reqs tail where t: "s_emu s = reqs @ tail" "tail = [] \<or> tail = [EmulatorComplete]"
    "set reqs \<subseteq> set (send_records (of_nat m) (drop m recs))"
    unfolding emu_inv_def by (metis set_append sup_ge1)
  have "\<exists>i < length recs. y = riscv_task (of_nat i) (recs ! i)" if "y \<in> set (send_records (of_nat m) (drop m recs))" for y
  proof -
    from that obtain j where "j < length recs - m" "y = riscv_task (of_nat m + of_nat j) (drop m recs ! j)"
      by (auto simp: send_records_map)
    then show ?thesis by (intro exI [of _ "m + j"]) auto
  qed
  with t assms(2) show ?thesis by auto
qed

lemma provers_count: "psys_step handle onchain s s' \<Longrightarrow> length (s_provers s') = length (s_provers s)"
  by (induction rule: psys_step.induct) simp_all

lemma reachable_provers: "psys_steps handle onchain (psys_init recs n) s \<Longrightarrow> length (s_provers s) = n"
  by (induction rule: rtranclp_induct) (simp_all add: psys_init_def provers_count)

lemma task_ok_typed:
  "task_ok recs x \<Longrightarrow> is_task x \<and> (\<forall>q tid ip. x = Riscv (RiscvRequest q) tid ip \<longrightarrow> rreq_record q = recs ! unat (rreq_chunk_index q))"
  by (cases x rule: is_task.cases) auto

text \<open>
  C6. The channels carry the messages their readers expect: the emulator sends the records under
  their own index and \<^verbatim>\<open>EmulatorComplete\<close>, the provers are given convert requests with the right
  record and combine requests with two adjacent proofs, the gateway gets task requests, results,
  embed proofs and \<^verbatim>\<open>Exit\<close>, and the number of provers stays the same.
\<close>

theorem channels_typed:
  assumes "reachable vm task recs n onchain s" and "length recs < 2 ^ 64"
  shows "list_all (\<lambda>x. (\<exists>i < length recs. x = riscv_task (of_nat i) (recs ! i)) \<or> x = EmulatorComplete) (s_emu s) \<and>
    list_all (\<lambda>x. is_task x \<and> (\<forall>q tid ip. x = Riscv (RiscvRequest q) tid ip \<longrightarrow>
      rreq_record q = recs ! unat (rreq_chunk_index q))) (task_msgs s) \<and>
    list_all is_report (s_to_gw s) \<and> length (s_provers s) = n"
proof -
  obtain m where "psys_inv (covers vm task recs) (embeds vm task) recs onchain s m"
    using reachable_inv [OF assms] ..
  then have emu: "emu_inv recs s m" and ms: "msgs_inv (covers vm task recs) (embeds vm task) recs s"
    by (simp_all add: psys_inv_def)
  show ?thesis
    using emu_inv_messages [OF emu] ms reachable_provers [OF assms(1)]
    unfolding msgs_inv_def list_all_iff by (blast dest: task_ok_typed)
qed

theorem channels_typed_witness:
  "list_all is_task (task_msgs demo_state) \<and> task_msgs demo_state \<noteq> [] \<and> length (s_provers demo_state) = 1"
  using channels_typed [OF demo_state_reachable] by (auto simp: demo_state_tasks list_all_iff)

text \<open>
  C7. Every proof in the system, in the tree or in a message, covers exactly the chunks it is
  labelled with: a tree of combinations over the converted proofs of the records from
  \<^verbatim>\<open>start_chunk\<close> to \<^verbatim>\<open>end_chunk\<close>, in order.
\<close>

theorem proofs_cover_labels:
  assumes "reachable vm task recs n onchain s" and "length recs < 2 ^ 64" and "p \<in> all_proofs s"
  shows "covers vm task recs (inner p) (unat (start_chunk p)) (unat (end_chunk p))"
  using reachable_inv [OF assms(1,2)] assms(3) by (auto simp: psys_inv_def msgs_inv_def proof_ok_def)

theorem proofs_cover_labels_witness: "covers (demo_vm [10, 11]) demo_task [10, 11] [11] 1 1"
  using proofs_cover_labels [OF demo_state_reachable, of "\<lparr>inner = [11], start_chunk = 1, end_chunk = 1\<rparr>"]
  by (simp add: all_proofs_def demo_state_tasks)

section \<open>Termination and completion\<close>

text \<open>
  C3. A proving task always comes to rest: whatever the interleaving, whatever pico-vm and the
  on-chain phase answer, at most \<open>10 n + 2 + 2 p\<close> steps are taken for \<open>n\<close> records and \<open>p\<close> provers.
\<close>

theorem prove_task_bounded:
  assumes "(psys_step (task_handle vm task) onchain ^^ k) (psys_init recs n) s" and "length recs < 2 ^ 64"
  shows "k \<le> 10 * length recs + 2 + 2 * n"
  using pw.psys_run_bounded [of k vm task onchain recs n s] assms by (simp add: task_handle_eq)

theorem prove_task_bounded_witness:
  "(psys_step (task_handle (demo_vm [10, 11]) demo_task) demo_onchain ^^ 17) (psys_init [10, 11] 1) demo_state \<and>
   (17 :: nat) \<le> 10 * 2 + 2 + 2 * 1"
proof -
  have "(psys_step (task_handle (demo_vm [10, 11]) demo_task) demo_onchain ^^ 17) (psys_init [10, 11] 1) demo_state"
    using run_schedule_count [OF demo_state_run [unfolded demo_run_def]] by (simp add: demo_schedule_def)
  with prove_task_bounded [OF this] show ?thesis by simp
qed



text \<open>
  C32. A program of fewer than two chunks never completes: no combine task is ever created, so
  no embed proof, and \<^verbatim>\<open>prove_task\<close> waits forever in every state that can be reached.
\<close>

theorem short_program_hangs:
  assumes "reachable vm task recs n onchain s" and "length recs < 2"
  shows "prove_task_result s = None"
proof (rule unverified_no_result [OF assms(1)])
  show "length recs < 2 ^ 64" using assms(2) by simp
  show "\<not> embed_ok (covers vm task recs) (embeds vm task) ep" for ep
    using assms(2) by (auto simp: embed_ok_def dest!: covers_range)
qed

theorem short_program_hangs_witness:
  "\<exists>s. reachable (demo_vm [10]) demo_task [10] 1 demo_onchain s \<and>
     (\<forall>t. \<not> psys_step (task_handle (demo_vm [10]) demo_task) demo_onchain s t) \<and> prove_task_result s = None"
proof -
  obtain s where "reachable (demo_vm [10]) demo_task [10] 1 demo_onchain s"
    "\<forall>t. \<not> psys_step (task_handle (demo_vm [10]) demo_task) demo_onchain s t"
    using reachable_stuck [of "demo_vm [10]" demo_task demo_onchain "[10]" 1 "psys_init [10] 1"] by auto
  moreover from this have "prove_task_result s = None" by (intro short_program_hangs) auto
  ultimately show ?thesis by blast
qed


end
