(* ===== verification/Proving_Shutdown.thy ===== *)
theory Proving_Shutdown
  imports Proving_Properties
begin

text \<open>
  The shutdown of a proving task (\<^verbatim>\<open>src/proving/mod.rs\<close>): after the completion signal
  \<^verbatim>\<open>prove_task\<close> waits, at most five seconds each, for all provers and then for the gateway. The
  gateway sends no \<^verbatim>\<open>Exit\<close> to the provers; a prover leaves its loop only after it has verified
  the final proof itself. The ledger of flights is extended here by the tasks that ended with
  their prover: they keep their nodes of the proof tree in progress, and they all start at
  chunk 0, so that at most one prover leaves.
\<close>

section \<open>The joins\<close>

definition provers_joined :: "('r, 'p, 'e) psys \<Rightarrow> bool" where
  "provers_joined s \<longleftrightarrow> list_all (\<lambda>p. p = Exited \<or> p = Dead) (s_provers s)"

definition gateway_joined :: "('r, 'p, 'e) psys \<Rightarrow> bool" where
  "gateway_joined s \<longleftrightarrow> s_run s \<noteq> Running"

section \<open>The tasks that ended with their prover\<close>

abbreviation exited :: "('r, 'p, 'e) psys \<Rightarrow> nat" where
  "exited s \<equiv> count_list (s_provers s) Exited"

definition exit_inv :: "('r, 'p, 'e) psys \<Rightarrow> bool" where
  "exit_inv s \<longleftrightarrow> (\<exists>m ended. handler_inv (sys_handler s) m \<and> flights s + ended \<subseteq># handler_flights (sys_handler s) \<and>
     (\<forall>f \<in># ended. fst (snd f) = 0) \<and> size ended = exited s)"

lemma exit_invE:
  assumes "exit_inv s"
  obtains m ended where "handler_inv (sys_handler s) m" "flights s + ended \<subseteq># handler_flights (sys_handler s)"
    "\<forall>f \<in># ended. fst (snd f) = 0" "size ended = exited s"
  using assms by (auto simp: exit_inv_def)

lemma exit_inv_less:
  assumes "exit_inv s" and "proof_tree (sys_handler s') = proof_tree (sys_handler s)"
    and "flights s' \<subseteq># flights s" and "exited s' = exited s"
  shows "exit_inv s'"
proof -
  obtain m ended where e: "handler_inv (sys_handler s) m" "flights s + ended \<subseteq># handler_flights (sys_handler s)"
    "\<forall>f \<in># ended. fst (snd f) = 0" "size ended = exited s"
    using assms(1) by (rule exit_invE)
  have "flights s' + ended \<subseteq># flights s + ended" using assms(3) by simp
  then have "flights s' + ended \<subseteq># handler_flights (sys_handler s)" using e(2) by (rule subset_mset.order_trans)
  with e assms(2,4) show ?thesis unfolding exit_inv_def by (intro exI [of _ m] exI [of _ ended]) auto
qed

lemma exit_inv_move:
  assumes inv: "exit_inv s" and wf: "handler_inv (sys_handler s') m"
    and fl: "flights s = F + A" "flights s' = F + B"
    and tr: "handler_flights (sys_handler s) = G + A" "handler_flights (sys_handler s') = G + B"
    and ex: "exited s' = exited s"
  shows "exit_inv s'"
proof -
  obtain ended where e: "F + A + ended \<subseteq># G + A" "\<forall>f \<in># ended. fst (snd f) = 0" "size ended = exited s"
    using inv fl tr by (metis exit_invE)
  from e(1) have "A + (F + ended) \<subseteq># A + G" by (simp add: ac_simps)
  then have "F + ended \<subseteq># G" by simp
  then have "B + (F + ended) \<subseteq># B + G" by simp
  then have "flights s' + ended \<subseteq># handler_flights (sys_handler s')" using fl tr by (simp add: ac_simps)
  with wf e ex show ?thesis unfolding exit_inv_def by metis
qed

lemma exit_inv_leave:
  assumes inv: "exit_inv s" and tr: "proof_tree (sys_handler s') = proof_tree (sys_handler s)"
    and fl: "flights s = add_mset (k, 0, b) (flights s')" and ex: "exited s' = Suc (exited s)"
  shows "exit_inv s'"
proof -
  obtain m ended where e: "handler_inv (sys_handler s) m" "flights s + ended \<subseteq># handler_flights (sys_handler s)"
    "\<forall>f \<in># ended. fst (snd f) = 0" "size ended = exited s"
    using inv by (rule exit_invE)
  have "flights s' + add_mset (k, 0, b) ended \<subseteq># handler_flights (sys_handler s')" using e(2) fl tr by simp
  with e tr ex show ?thesis
    unfolding exit_inv_def by (intro exI [of _ m] exI [of _ "add_mset (k, 0, b) ended"]) auto
qed

text \<open>Only the first node of the tree starts at chunk 0.\<close>

lemma tiles_start:
  "tiles (Suc lo) es hi \<Longrightarrow> e \<in> set es \<Longrightarrow> fst (node_range e) \<noteq> 0"
  by (induction es arbitrary: lo) auto

lemma first_node_only:
  assumes "tree_inv t m" and "X \<subseteq># open_nodes t" and "\<forall>f \<in># X. fst (snd f) = 0"
  shows "size X \<le> 1"
proof -
  let ?P = "\<lambda>f :: flight. fst (snd f) = 0"
  have "size (filter_mset ?P (open_nodes t)) \<le> 1"
  proof (cases "tree t")
    case (Cons e es)
    define rest where "rest = open_nodes (t\<lparr>tree := es\<rparr>)"
    from assms(1) Cons have "tiles (Suc (unat (snd (node_range e)))) es m" by (simp add: tree_inv_def)
    then have "filter_mset ?P rest = {#}"
      using tiles_start by (fastforce simp: filter_mset_eq_conv rest_def open_nodes_def)
    moreover have "open_nodes t = (if is_in_progress (snd e) then {#(fst e, node_range e)#} else {#}) + rest"
      using Cons by (simp add: open_nodes_def rest_def)
    ultimately show ?thesis by (simp del: filter_mset_eq_mempty_iff)
  qed (simp add: open_nodes_def)
  moreover have "X \<subseteq># filter_mset ?P (open_nodes t)"
    using multiset_filter_mono [OF assms(2), of ?P] filter_mset_eq_conv [of ?P X X] assms(3) by simp
  ultimately show ?thesis using size_mset_mono order_trans by blast
qed

lemma exit_inv_bound:
  assumes "exit_inv s"
  shows "exited s \<le> 1"
proof -
  obtain m ended where e: "handler_inv (sys_handler s) m" "flights s + ended \<subseteq># handler_flights (sys_handler s)"
    "\<forall>f \<in># ended. fst (snd f) = 0" "size ended = exited s"
    using assms by (rule exit_invE)
  from e(2) have "ended \<subseteq># handler_flights (sys_handler s)"
    by (rule subset_mset.order_trans [rotated]) simp
  with first_node_only [OF e(1)] e(3,4) show ?thesis by metis
qed

section \<open>Every step keeps the extended ledger\<close>

lemma exit_inv_request:
  assumes ex: "exit_inv s" and gw: "gw_inv s m" and m: "m < 2 ^ 64"
    and x: "x = riscv_task (of_nat m) r" and on: "gateway_on_emulator (Some x) (s_gw s) = Ret (g, out, ctl)"
  shows "exit_inv (s\<lparr>s_emu := xs, s_gw := g, s_to_provers := s_to_provers s @ out, s_run := st\<rparr>)"
proof -
  from gw have inv: "handler_inv (gw_handler (s_gw s)) m" by (simp add: gw_inv_def)
  from on_emulator_request [OF inv m, of "\<lparr>rreq_chunk_index = of_nat m, rreq_record = r\<rparr>"
      "usize_to_string (of_nat m)" "''''"] on x
  obtain h where h: "g = (s_gw s)\<lparr>gw_handler := h\<rparr>" "out = [x]" "handler_inv h (Suc m)"
    "handler_flights h = add_mset (of_nat m, of_nat m, of_nat m) (handler_flights (sys_handler s))"
    by (auto simp: riscv_task_def simp del: gateway_on_emulator.simps)
  show ?thesis
    by (rule exit_inv_move [OF ex, where F = "flights s" and A = "{#}" and B = "{#(of_nat m, of_nat m, of_nat m)#}"
          and G = "handler_flights (sys_handler s)" and m = "Suc m"])
      (simp_all add: h flights_def task_msgs_def x)
qed

lemma exit_inv_result:
  assumes ex: "exit_inv s" and gw: "gw_inv s m" and m: "m < 2 ^ 64"
    and x: "s_to_gw s = x # xs" and res: "result_of x = Some (k, p)"
    and on: "gateway_on_prover onchain (Some x) (s_gw s) = Ret (g, out, ctl)"
  shows "exit_inv (s\<lparr>s_to_gw := xs, s_gw := g, s_to_provers := s_to_provers s @ out, s_run := st\<rparr>)"
proof -
  let ?f = "(k, start_chunk p, end_chunk p)"
  let ?F = "sum_list (map msg_flight (task_msgs s @ xs))"
  note rc = result_of_cases(3,4) [OF res]
  from gw have inv: "handler_inv (gw_handler (s_gw s)) m" and e: "embed_proof (gw_handler (s_gw s)) = None"
    by (simp_all add: gw_inv_def)
  have f: "?f \<in># handler_flights (gw_handler (s_gw s))"
    using flights_member [OF gw, of x ?f] x rc by simp
  have fls: "flights s = ?F + {#?f#}" by (simp add: flights_def x rc)
  from inv m e res f show ?thesis
  proof (cases rule: on_prover_result [where onchain = onchain])
    case (settled h)
    with on have h: "g = (s_gw s)\<lparr>gw_handler := h\<rparr>" "out = []" by auto
    show ?thesis
      by (rule exit_inv_move [OF ex, where F = ?F and A = "{#?f#}" and B = "{#}" and G = "handler_flights h" and m = m])
        (use settled fls in \<open>simp_all add: h flights_def task_msgs_def\<close>)
  next
    case (merged h a b F)
    with on have h: "g = (s_gw s)\<lparr>gw_handler := h\<rparr>" "out = [combine_task (handler_nodes h = 1) k a b]" by auto
    show ?thesis
      by (rule exit_inv_move [OF ex, where F = ?F and A = "{#?f#}" and B = "{#(k, start_chunk a, end_chunk b)#}"
            and G = F and m = m])
        (use merged fls in \<open>simp_all add: h flights_def task_msgs_def\<close>)
  qed
qed

lemma exit_inv_report:
  assumes ex: "exit_inv s" and gw: "gw_inv s m" and ms: "msgs_inv good final recs s" and m: "m < 2 ^ 64"
    and x: "s_to_gw s = x # xs" and on: "gateway_on_prover onchain (Some x) (s_gw s) = Ret (g, out, ctl)"
  shows "exit_inv (s\<lparr>s_to_gw := xs, s_gw := g, s_to_provers := s_to_provers s @ out, s_run := st\<rparr>)"
proof -
  from ms x have "is_report x" by (simp add: msgs_inv_def)
  then consider k p where "result_of x = Some (k, p)" | "x = RequestTask" | e where "x = Embed e" | "x = Exit"
    by (cases x rule: is_report.cases) auto
  then show ?thesis
  proof cases
    case 1
    then show ?thesis by (rule exit_inv_result [OF ex gw m x _ on])
  next
    case 2
    with on x show ?thesis by (intro exit_inv_less [OF ex]) (auto simp: flights_def task_msgs_def)
  next
    case (3 e)
    with on have "out = []" "proof_tree (gw_handler g) = proof_tree (sys_handler s)"
      by (auto simp: on_prover_embed bind_outcome_eq_Ret complete_with_def simp del: gateway_on_prover.simps)
    with 3 x show ?thesis by (intro exit_inv_less [OF ex]) (auto simp: flights_def task_msgs_def)
  next
    case 4
    with gw x show ?thesis by (simp add: gw_inv_def)
  qed
qed

context prover_contract
begin

lemma exit_inv_answer:
  assumes ex: "exit_inv s" and inv: "psys_inv good final recs onchain s m" and b: "s_provers s = ps @ Busy x # qs"
    and h: "handle (length ps) x = Ret (out, ctl)"
  shows "exit_inv (s\<lparr>s_provers := ps @ prover_after ctl # qs, s_to_gw := s_to_gw s @ out\<rparr>)"
proof -
  from inv have ms: "msgs_inv good final recs s" by (simp add: psys_inv_def)
  have "task_ok recs x" using ms busy_task [OF b] by (simp add: msgs_inv_def)
  moreover have "proof_ok good final recs p" if "p \<in> msg_proofs x" for p
    using that ms busy_task [OF b] by (auto simp: msgs_inv_def all_proofs_def)
  ultimately show ?thesis using h
  proof (rule answer_cases)
    fix res k p assume "ctl = Continue" "out = [res, RequestTask]" "msg_flight res = msg_flight x"
    then show ?thesis using b by (intro exit_inv_less [OF ex]) (simp_all add: flights_def task_msgs_def prover_after_def)
  next
    fix e k j assume "ctl = Break" "out = [Embed e, Exit]" "msg_flight x = {#(k, 0, j)#}"
    then show ?thesis using b
      by (intro exit_inv_leave [OF ex, of _ k j]) (simp_all add: flights_def task_msgs_def prover_after_def)
  qed
qed

lemma psys_step_exit_inv:
  assumes step: "psys_step handle onchain s s'" and inv: "psys_inv good final recs onchain s m"
    and len: "length recs < 2 ^ 64" and ex: "exit_inv s"
  shows "exit_inv s'"
proof -
  from inv have emu: "emu_inv recs s m" and gw: "s_run s = Running \<Longrightarrow> gw_inv s m"
    and ms: "msgs_inv good final recs s" by (simp_all add: psys_inv_def)
  have m: "m < 2 ^ 64" using emu len by (simp add: emu_inv_def)
  from step show ?thesis
  proof cases
    case (gw_emu x xs g out ctl)
    from emu gw_emu(3) show ?thesis
    proof (cases rule: emu_inv_Cons)
      case request
      with exit_inv_request [OF ex gw m _ gw_emu(4)] gw_emu(1,2) show ?thesis by simp
    next
      case finished
      have "embed_proof (gw_handler (s_gw s)) = None" using gw gw_emu(2) by (simp add: gw_inv_def)
      with finished gw_emu show ?thesis
        by (intro exit_inv_less [OF ex])
          (auto simp: on_emulator_complete flights_def task_msgs_def simp del: gateway_on_emulator.simps)
    qed
  next
    case (gw_prover x xs g out ctl)
    with exit_inv_report [OF ex gw ms m] show ?thesis by simp
  next
    case (p_answer ps x qs out ctl)
    with exit_inv_answer [OF ex inv] show ?thesis by simp
  qed (rule exit_inv_less [OF ex]; simp add: flights_def task_msgs_def prover_start_def)+
qed

lemma psys_reach_exited:
  assumes "psys_steps handle onchain (psys_init recs n) s" and len: "length recs < 2 ^ 64"
  shows "exited s \<le> 1"
proof -
  from assms(1) have "exit_inv s"
  proof (induction rule: rtranclp_induct)
    case base
    show ?case using psys_init_inv [of good final recs onchain n]
      by (auto simp: exit_inv_def psys_inv_def gw_inv_def psys_init_def count_list_0_iff intro!: exI [of _ "{#}"])
  next
    case (step s s')
    obtain m where "psys_inv good final recs onchain s m" using psys_reach_inv [OF step.hyps(1) len] ..
    with psys_step_exit_inv step len show ?case by blast
  qed
  then show ?thesis by (rule exit_inv_bound)
qed

end

section \<open>The wait for the provers\<close>

lemma demo_pair_completes:
  "\<exists>s bs. reachable (demo_vm [10, 11]) demo_task [10, 11] 2 demo_onchain s \<and> prove_task_result s = Some (Inr bs)"
proof -
  obtain s where s: "reachable (demo_vm [10, 11]) demo_task [10, 11] 2 demo_onchain s"
    "\<And>t. \<not> psys_step (task_handle (demo_vm [10, 11]) demo_task) demo_onchain s t"
    using reachable_stuck [of "demo_vm [10, 11]" demo_task demo_onchain "[10, 11]" 2 "psys_init [10, 11] 2"] by auto
  have "\<exists>bs. prove_task_result s = Some (Inr bs)"
    by (rule stuck_has_result [OF s(1)])
      (use s(2) demo_accepts [of "[10, 11]" "[10, 11]"] demo_vm_returns in \<open>auto simp: demo_onchain_def\<close>)
  with s(1) show ?thesis by blast
qed



end
