(* ===== verification/Onchain_Daemon.thy ===== *)
theory Onchain_Daemon
  imports Onchain
begin

text \<open>
  The monitor of the gnark prover (\<^verbatim>\<open>start_onchain_daemon\<close> in \<^verbatim>\<open>src/proving/onchain.rs\<close>): a
  background thread that looks every fifteen seconds whether the dockerised prover runs and
  restarts it. The world outside the service, container and downloaded files, is a parameter:
  a type of states, what the service can see of a state (\<open>view\<close>), the effect of
  \<^verbatim>\<open>recreate_gnark_prover\<close>, and the changes that others make (\<open>env\<close>).
\<close>

section \<open>States and operations\<close>

datatype daemon_status = NotStarted | Looping | Ended

record 'd monitor =
  onchain_daemon :: bool \<comment> \<open>\<^verbatim>\<open>ONCHAIN_DAEMON\<close> is set\<close>
  daemon_thread :: daemon_status
  docker :: 'd

definition monitor_init :: "'d \<Rightarrow> 'd monitor" where
  "monitor_init d = \<lparr>onchain_daemon = False, daemon_thread = NotStarted, docker = d\<rparr>"

text \<open>\<^verbatim>\<open>OnceLock::set\<close> succeeds once, so one thread is spawned in the life of the process.\<close>

definition start_onchain_daemon :: "'d monitor \<Rightarrow> 'd monitor" where
  "start_onchain_daemon s =
     (if onchain_daemon s then s else s\<lparr>onchain_daemon := True, daemon_thread := Looping\<rparr>)"

text \<open>One round of the loop. Both \<^verbatim>\<open>Result\<close>s are discarded; a panic of the download check is not.\<close>

definition daemon_iteration ::
  "('d \<Rightarrow> ('e, 'o) gnark_lib) \<Rightarrow> ('d \<Rightarrow> 'd \<times> (string + unit)) \<Rightarrow> 'd \<Rightarrow> 'd outcome" where
  "daemon_iteration view recreate d =
     bind_outcome (ensure_gnark_downloads (view d)) (\<lambda>_.
       Ret (if \<not> gl_running (view d) then fst (recreate d) else d))"

definition daemon_round ::
  "('d \<Rightarrow> ('e, 'o) gnark_lib) \<Rightarrow> ('d \<Rightarrow> 'd \<times> (string + unit)) \<Rightarrow> 'd monitor \<Rightarrow> 'd monitor" where
  "daemon_round view recreate s =
     (case daemon_iteration view recreate (docker s) of
        Ret d \<Rightarrow> s\<lparr>docker := d\<rparr>
      | Panic _ \<Rightarrow> s\<lparr>daemon_thread := Ended\<rparr>)"

inductive monitor_step ::
  "('d \<Rightarrow> ('e, 'o) gnark_lib) \<Rightarrow> ('d \<Rightarrow> 'd \<times> (string + unit)) \<Rightarrow> ('d \<Rightarrow> 'd \<Rightarrow> bool) \<Rightarrow> 'd monitor \<Rightarrow> 'd monitor \<Rightarrow> bool"
  for view recreate env where
  start: "monitor_step view recreate env s (start_onchain_daemon s)"
| iterate: "daemon_thread s = Looping \<Longrightarrow> monitor_step view recreate env s (daemon_round view recreate s)"
| outside: "env (docker s) d \<Longrightarrow> monitor_step view recreate env s (s\<lparr>docker := d\<rparr>)"

abbreviation monitor_steps where
  "monitor_steps view recreate env \<equiv> (monitor_step view recreate env)\<^sup>*\<^sup>*"

section \<open>Rounds\<close>

definition gnark_files :: "('e, 'o) gnark_lib \<Rightarrow> bool" where
  "gnark_files lib \<longleftrightarrow> (\<forall>f \<in> {''vm_pk'', ''vm_vk'', ''vm_ccs''}. gl_exists lib f)"

lemma ensure_gnark_downloads_cases:
  "ensure_gnark_downloads lib =
     (if gnark_files lib then Ret (Inr ()) else Panic ''[onchain] ERROR: Required gnark files are missing'')"
  by (auto simp: ensure_gnark_downloads_def gnark_files_def)

lemma daemon_round_cases:
  "daemon_round view recreate s =
     (if \<not> gnark_files (view (docker s)) then s\<lparr>daemon_thread := Ended\<rparr>
      else if gl_running (view (docker s)) then s else s\<lparr>docker := fst (recreate (docker s))\<rparr>)"
  by (simp add: daemon_round_def daemon_iteration_def ensure_gnark_downloads_cases)

text \<open>The flag is set exactly when the thread has been spawned.\<close>

lemma monitor_flag:
  assumes "monitor_steps view recreate env (monitor_init d0) s"
  shows "onchain_daemon s \<longleftrightarrow> daemon_thread s \<noteq> NotStarted"
  using assms
proof (induction rule: rtranclp_induct)
  case base
  show ?case by (simp add: monitor_init_def)
next
  case (step s s')
  from step.hyps(2) step.IH show ?case
    by cases (auto simp: start_onchain_daemon_def daemon_round_cases)
qed

text \<open>A thread that has ended stays so, and the world then changes by others only.\<close>

lemma ended_daemon_steps:
  assumes "monitor_steps view recreate env s s'" and "daemon_thread s = Ended" and "onchain_daemon s"
  shows "daemon_thread s' = Ended \<and> onchain_daemon s' \<and> env\<^sup>*\<^sup>* (docker s) (docker s')"
  using assms(1)
proof (induction rule: rtranclp_induct)
  case base
  show ?case using assms(2,3) by simp
next
  case (step t t')
  from step.hyps(2) step.IH show ?case
    by cases (auto simp: start_onchain_daemon_def intro: rtranclp.rtrancl_into_rtrancl)
qed

text \<open>While the files stay in place, the monitor goes on however often it is started.\<close>

lemma monitor_survives:
  assumes "monitor_steps view recreate env (monitor_init d0) s" and "gnark_files (view d0)"
    and "\<And>d d'. env d d' \<Longrightarrow> gnark_files (view d) \<Longrightarrow> gnark_files (view d')"
    and "\<And>d. gnark_files (view d) \<Longrightarrow> gnark_files (view (fst (recreate d)))"
  shows "daemon_thread s \<noteq> Ended \<and> gnark_files (view (docker s))"
  using assms(1)
proof (induction rule: rtranclp_induct)
  case base
  show ?case using assms(2) by (simp add: monitor_init_def)
next
  case (step s s')
  from step.hyps(2) step.IH show ?case
    by cases (auto simp: start_onchain_daemon_def daemon_round_cases assms(3,4))
qed

section \<open>The end of the monitor\<close>

text \<open>
  A world with two observable parts: whether the files are in place and whether the prover runs.
\<close>

definition demo_view :: "bool \<times> bool \<Rightarrow> (nat, nat) gnark_lib" where
  "demo_view d = demo_lib\<lparr>gl_exists := \<lambda>f. fst d, gl_running := snd d\<rparr>"

definition demo_recreate :: "bool \<times> bool \<Rightarrow> (bool \<times> bool) \<times> (string + unit)" where
  "demo_recreate d = ((fst d, True), Inr ())"

text \<open>
  C20. A file that is missing when the monitor looks ends the monitor for the life of the
  process: in every state that can be reached with the thread running, a round without the
  files ends the thread and leaves the world alone, no later call of
  \<^verbatim>\<open>start_onchain_daemon\<close> starts it again, also when the files have come back, and from then
  on the prover is never restarted by the monitor: the world changes by others only.
\<close>

theorem monitor_ends_for_good:
  assumes "monitor_steps view recreate env (monitor_init d0) s" and "daemon_thread s = Looping"
    and "f \<in> {''vm_pk'', ''vm_vk'', ''vm_ccs''}" and "\<not> gl_exists (view (docker s)) f"
    and "monitor_steps view recreate env (daemon_round view recreate s) t"
  shows "daemon_thread t = Ended \<and> start_onchain_daemon t = t \<and> env\<^sup>*\<^sup>* (docker s) (docker t)"
proof -
  have "\<not> gnark_files (view (docker s))" using assms(3,4) by (auto simp: gnark_files_def)
  then have r: "daemon_round view recreate s = s\<lparr>daemon_thread := Ended\<rparr>" by (simp add: daemon_round_cases)
  have "onchain_daemon s" using monitor_flag [OF assms(1)] assms(2) by simp
  with r ended_daemon_steps [OF assms(5)] show ?thesis by (simp add: start_onchain_daemon_def)
qed

theorem monitor_ends_for_good_witness:
  "\<exists>t. monitor_steps demo_view demo_recreate (\<lambda>d d'. True) (monitor_init (False, False)) t \<and>
     docker t = (True, False) \<and> daemon_thread t = Ended \<and> start_onchain_daemon t = t"
proof -
  let ?steps = "monitor_steps demo_view demo_recreate (\<lambda>d d'. True)"
  let ?s = "start_onchain_daemon (monitor_init (False, False))"
  let ?r = "daemon_round demo_view demo_recreate ?s"
  let ?t = "?r\<lparr>docker := (True, False)\<rparr>"
  have s: "?steps (monitor_init (False, False)) ?s" by (rule r_into_rtranclp) (rule start)
  have l: "daemon_thread ?s = Looping" "\<not> gl_exists (demo_view (docker ?s)) ''vm_pk''"
    by (simp_all add: start_onchain_daemon_def monitor_init_def demo_view_def)
  have t: "?steps ?r ?t" by (rule r_into_rtranclp) (rule outside, rule TrueI)
  have "daemon_thread ?t = Ended \<and> start_onchain_daemon ?t = ?t"
    using monitor_ends_for_good [OF s l(1) _ l(2) t] by simp
  moreover have "?steps ?s ?r" using l(1) by (intro r_into_rtranclp iterate)
  with s t have "?steps (monitor_init (False, False)) ?t" by (meson rtranclp_trans)
  ultimately show ?thesis by (intro exI [of _ ?t]) simp
qed

end
