(* ===== verification/Database.thy ===== *)
theory Database
  imports Proving_Task
begin

text \<open>
  The stores of the service: the SQLite tables \<^verbatim>\<open>apps\<close> and \<^verbatim>\<open>proofs\<close> (\<^verbatim>\<open>migrations/\<close>) with the
  four statements the service executes on them, and the in-memory map of outputs. A table is
  a finite map from its primary key to the row. A statement can fail for reasons outside the
  service (pool, disk): the argument \<open>fault\<close> is the error it then returns, with no effect.
  Whether SQLite enforces the foreign key of \<^verbatim>\<open>proofs\<close> is the argument \<open>fk\<close>.
\<close>

section \<open>Tables and statements\<close>

record AppRow =
  row_app_id :: string
  row_program :: bytes
  row_pk :: bytes
  row_vk :: bytes
  row_info :: "string option"

record database =
  apps :: "string \<rightharpoonup> AppRow"
  proofs :: "proving_key \<rightharpoonup> bytes option" \<comment> \<open>the column \<^verbatim>\<open>proof\<close> may be NULL\<close>

definition with_fault :: "string option \<Rightarrow> string + 'a \<Rightarrow> string + 'a" where
  "with_fault fault r = (case fault of Some e \<Rightarrow> Inl e | None \<Rightarrow> r)"

text \<open>\<^verbatim>\<open>SELECT app_id, program, pk, vk, info FROM apps WHERE app_id = ?\<close>\<close>

definition select_app :: "string option \<Rightarrow> string \<Rightarrow> database \<Rightarrow> string + AppRow option" where
  "select_app fault a db = with_fault fault (Inr (apps db a))"

text \<open>\<^verbatim>\<open>INSERT INTO apps (app_id, program, pk, vk, info) VALUES (?, ?, ?, ?, ?)\<close>\<close>

definition insert_app :: "string option \<Rightarrow> AppRow \<Rightarrow> database \<Rightarrow> string + database" where
  "insert_app fault row db = with_fault fault
     (if row_app_id row \<in> dom (apps db) then Inl ''UNIQUE constraint failed: apps.app_id''
      else Inr (db\<lparr>apps := (apps db)(row_app_id row \<mapsto> row)\<rparr>))"

text \<open>\<^verbatim>\<open>INSERT OR REPLACE INTO proofs (app_id, task_id, proof) VALUES (?, ?, ?)\<close>\<close>

definition replace_proof :: "bool \<Rightarrow> string option \<Rightarrow> proving_key \<Rightarrow> bytes \<Rightarrow> database \<Rightarrow> string + database" where
  "replace_proof fk fault key proof_bytes db = with_fault fault
     (if fk \<and> key_app_id key \<notin> dom (apps db) then Inl ''FOREIGN KEY constraint failed''
      else Inr (db\<lparr>proofs := (proofs db)(key \<mapsto> Some proof_bytes)\<rparr>))"

text \<open>\<^verbatim>\<open>SELECT proof FROM proofs WHERE app_id = ? AND task_id = ?\<close>, a row with its one column\<close>

definition select_proof :: "string option \<Rightarrow> proving_key \<Rightarrow> database \<Rightarrow> string + bytes option option" where
  "select_proof fault key db = with_fault fault (Inr (proofs db key))"

section \<open>The contract of a table\<close>

text \<open>
  What a successful write of a row that fits its key does: the key has the new row, all other
  keys keep theirs.
\<close>

locale keyed_store =
  fixes fits :: "'k \<Rightarrow> 'v \<Rightarrow> bool" and lookup :: "'k \<Rightarrow> 's \<Rightarrow> 'v option"
    and store :: "'k \<Rightarrow> 'v \<Rightarrow> 's \<Rightarrow> string + 's"
  assumes lookup_stored: "fits k v \<Longrightarrow> store k v s = Inr s' \<Longrightarrow> lookup k s' = Some v"
    and lookup_other: "fits k v \<Longrightarrow> store k v s = Inr s' \<Longrightarrow> k' \<noteq> k \<Longrightarrow> lookup k' s' = lookup k' s"
begin

lemma lookup_after:
  assumes "fits k v" and "store k v s = Inr s'"
  shows "lookup k' s' = (if k' = k then Some v else lookup k' s)"
  using lookup_stored [OF assms] lookup_other [OF assms, of k'] by simp

end

text \<open>A table that never overwrites: the first row of a key stays.\<close>

locale write_once_store = keyed_store +
  assumes store_fresh: "fits k v \<Longrightarrow> store k v s = Inr s' \<Longrightarrow> lookup k s = None"
begin

lemma store_keeps:
  assumes "fits k v" and "store k v s = Inr s'" and "lookup k' s = Some v'"
  shows "lookup k' s' = Some v'"
  using lookup_other [OF assms(1,2), of k'] store_fresh [OF assms(1,2)] assms(3) by (cases "k' = k") auto

end

text \<open>The two tables: \<^verbatim>\<open>proofs\<close> overwrites, \<^verbatim>\<open>apps\<close> does not.\<close>

interpretation proof_table: keyed_store
  "\<lambda>k c. c \<noteq> None" "\<lambda>k db. proofs db k" "\<lambda>k c. replace_proof fk fault k (the c)" for fk fault
  by unfold_locales (auto simp: replace_proof_def with_fault_def split: option.splits if_splits)

interpretation app_table: write_once_store
  "\<lambda>a row. row_app_id row = a" "\<lambda>a db. apps db a" "\<lambda>a row. insert_app fault row" for fault
  by unfold_locales (auto simp: insert_app_def with_fault_def split: option.splits if_splits)

end
