(* ===== verification/App_Manager.thy ===== *)
theory App_Manager
  imports Database
begin

text \<open>
  Registered applications (\<^verbatim>\<open>src/app_manager.rs\<close>): compiling an ELF file into an app with its
  keys and identifier, the conversion between apps and table rows, lookup and registration.
  The compiler, key setup, hash and the codec of pico-vm's types are fields of the parameter
  \<^verbatim>\<open>app_lib\<close>. A registration is a check followed by an insertion; other requests may change
  the database in between, which is the argument \<open>between\<close>.
\<close>

section \<open>Code outside the service\<close>

record ('g, 'pk, 'vk) app_lib =
  al_compile :: "bytes \<Rightarrow> 'g outcome" \<comment> \<open>\<^verbatim>\<open>Compiler::new(SourceType::RISCV, elf).compile()\<close>\<close>
  al_vk_enabled :: bool
  al_get_mut :: "'g \<Rightarrow> 'g option" \<comment> \<open>\<^verbatim>\<open>Arc::get_mut\<close>\<close>
  al_pad :: "'g \<Rightarrow> string + 'g" \<comment> \<open>\<^verbatim>\<open>padding_preprocessed_shape\<close>\<close>
  al_setup_keys :: "'g \<Rightarrow> 'pk \<times> 'vk"
  al_hash_str :: "'vk \<Rightarrow> string" \<comment> \<open>\<^verbatim>\<open>hash_str_via_bn254\<close>\<close>
  al_ser_program :: "'g \<Rightarrow> string + bytes"
  al_ser_pk :: "'pk \<Rightarrow> string + bytes"
  al_ser_vk :: "'vk \<Rightarrow> string + bytes"
  al_de_program :: "bytes \<Rightarrow> string + 'g"
  al_de_pk :: "bytes \<Rightarrow> string + 'pk"
  al_de_vk :: "bytes \<Rightarrow> string + 'vk"

text \<open>The documented behaviour relied on: the codec reads back what it wrote.\<close>

definition codec_conforms :: "('g, 'pk, 'vk) app_lib \<Rightarrow> bool" where
  "codec_conforms lib \<longleftrightarrow>
     (\<forall>g bs. al_ser_program lib g = Inr bs \<longrightarrow> al_de_program lib bs = Inr g) \<and>
     (\<forall>k bs. al_ser_pk lib k = Inr bs \<longrightarrow> al_de_pk lib bs = Inr k) \<and>
     (\<forall>k bs. al_ser_vk lib k = Inr bs \<longrightarrow> al_de_vk lib bs = Inr k)"

text \<open>The hash of a key is printed as \<^verbatim>\<open>0x\<close> and 64 hexadecimal digits.\<close>

definition hash_conforms :: "('g, 'pk, 'vk) app_lib \<Rightarrow> bool" where
  "hash_conforms lib \<longleftrightarrow>
     (\<forall>vk. \<exists>ds. al_hash_str lib vk = ''0x'' @ map hex_char ds \<and> length ds = 64 \<and> (\<forall>d \<in> set ds. d < 16))"

section \<open>Apps and rows\<close>

record ('g, 'pk, 'vk) App =
  app_id :: string
  program :: 'g
  pk :: 'pk
  vk :: 'vk
  info :: "string option"

definition unwrap_result :: "string + 'a \<Rightarrow> 'a outcome" where
  "unwrap_result r = (case r of Inl _ \<Rightarrow> Panic ''called `Result::unwrap()` on an `Err` value'' | Inr x \<Rightarrow> Ret x)"

definition App_new :: "('g, 'pk, 'vk) app_lib \<Rightarrow> bytes \<Rightarrow> string option \<Rightarrow> ('g, 'pk, 'vk) App outcome" where
  "App_new lib elf info_text =
     bind_outcome (al_compile lib elf) (\<lambda>prog.
       bind_outcome
         (if al_vk_enabled lib
          then case al_get_mut lib prog of
                 None \<Rightarrow> Panic ''cannot get program''
               | Some p \<Rightarrow> (case al_pad lib p of
                     Inl _ \<Rightarrow> Panic ''cannot padding preprocessed shape''
                   | Inr p' \<Rightarrow> Ret p')
          else Ret prog) (\<lambda>prog.
         let (pk', vk') = al_setup_keys lib prog;
             hash = al_hash_str lib vk'
         in if length hash = 66
            then Ret \<lparr>app_id = drop 2 hash, program = prog, pk = pk', vk = vk', info = info_text\<rparr>
            else Panic ''app-id must be an uint256 starting with 0x''))"

definition AppRow_from :: "('g, 'pk, 'vk) app_lib \<Rightarrow> ('g, 'pk, 'vk) App \<Rightarrow> AppRow outcome" where
  "AppRow_from lib app =
     bind_outcome (unwrap_result (al_ser_program lib (program app))) (\<lambda>p.
       bind_outcome (unwrap_result (al_ser_pk lib (pk app))) (\<lambda>k.
         bind_outcome (unwrap_result (al_ser_vk lib (vk app))) (\<lambda>v.
           Ret \<lparr>row_app_id = app_id app, row_program = p, row_pk = k, row_vk = v, row_info = info app\<rparr>)))"

definition App_from :: "('g, 'pk, 'vk) app_lib \<Rightarrow> AppRow \<Rightarrow> ('g, 'pk, 'vk) App outcome" where
  "App_from lib row =
     bind_outcome (unwrap_result (al_de_program lib (row_program row))) (\<lambda>p.
       bind_outcome (unwrap_result (al_de_pk lib (row_pk row))) (\<lambda>k.
         bind_outcome (unwrap_result (al_de_vk lib (row_vk row))) (\<lambda>v.
           Ret \<lparr>app_id = row_app_id row, program = p, pk = k, vk = v, info = row_info row\<rparr>)))"

section \<open>Lookup and registration\<close>

text \<open>\<^verbatim>\<open>app_id.strip_prefix("0x").unwrap_or(app_id)\<close>\<close>

fun strip_0x :: "string \<Rightarrow> string" where
  "strip_0x (a # b # s) = (if a = CHR ''0'' \<and> b = CHR ''x'' then s else a # b # s)"
| "strip_0x s = s"

definition get_app ::
  "('g, 'pk, 'vk) app_lib \<Rightarrow> string option \<Rightarrow> string \<Rightarrow> database \<Rightarrow> (string + ('g, 'pk, 'vk) App option) outcome" where
  "get_app lib fault a db =
     (case select_app fault (strip_0x a) db of
        Inl e \<Rightarrow> Ret (Inl e)
      | Inr None \<Rightarrow> Ret (Inr None)
      | Inr (Some row) \<Rightarrow> bind_outcome (App_from lib row) (\<lambda>app. Ret (Inr (Some app))))"

text \<open>The second half of \<^verbatim>\<open>set_app\<close>: serialising the app and inserting its row.\<close>

definition set_app_insert ::
  "('g, 'pk, 'vk) app_lib \<Rightarrow> string option \<Rightarrow> ('g, 'pk, 'vk) App \<Rightarrow> database \<Rightarrow>
     ((string + ('g, 'pk, 'vk) App) \<times> database) outcome" where
  "set_app_insert lib fault app db =
     bind_outcome (AppRow_from lib app) (\<lambda>row.
       case insert_app fault row db of
         Inl e \<Rightarrow> Ret (Inl e, db)
       | Inr db' \<Rightarrow> Ret (Inr app, db'))"

definition set_app ::
  "('g, 'pk, 'vk) app_lib \<Rightarrow> string option \<Rightarrow> string option \<Rightarrow> (database \<Rightarrow> database) \<Rightarrow> bytes \<Rightarrow> string option \<Rightarrow>
     database \<Rightarrow> ((string + ('g, 'pk, 'vk) App) \<times> database) outcome" where
  "set_app lib fault1 fault2 between elf info_text db =
     bind_outcome (App_new lib elf info_text) (\<lambda>app.
       bind_outcome (get_app lib fault1 (app_id app) db) (\<lambda>r.
         case r of
           Inl e \<Rightarrow> Ret (Inl e, db)
         | Inr (Some _) \<Rightarrow> Ret (Inl (''app already exists '' @ app_id app), db)
         | Inr None \<Rightarrow> set_app_insert lib fault2 app (between db)))"

section \<open>Lemmas\<close>

lemma unwrap_result_Ret [outcome_simps]: "unwrap_result r = Ret x \<longleftrightarrow> r = Inr x"
  by (auto simp: unwrap_result_def split: sum.splits)

lemma App_row_roundtrip: "codec_conforms lib \<Longrightarrow> AppRow_from lib app = Ret row \<Longrightarrow> App_from lib row = Ret app"
  by (auto simp: AppRow_from_def App_from_def codec_conforms_def outcome_simps unwrap_result_def split: sum.splits)

lemma hex_char_not_x: "d < 16 \<Longrightarrow> hex_char d \<noteq> CHR ''x''"
  using of_char_hex_char [of d] by (auto split: if_splits)

lemma strip_0x_hex: "(\<And>d. d \<in> set ds \<Longrightarrow> d < 16) \<Longrightarrow> strip_0x (map hex_char ds) = map hex_char ds"
  by (cases "map hex_char ds" rule: strip_0x.cases) (auto simp: hex_char_not_x)

lemma App_new_id:
  assumes "hash_conforms lib" and "App_new lib elf i = Ret app"
  shows "\<exists>ds. app_id app = map hex_char ds \<and> length ds = 64 \<and> (\<forall>d \<in> set ds. d < 16) \<and>
    al_hash_str lib (vk app) = ''0x'' @ app_id app"
proof -
  from assms(2) have a: "app_id app = drop 2 (al_hash_str lib (vk app))"
    by (auto simp: App_new_def outcome_simps Let_def case_prod_beta split: if_splits)
  from assms(1) obtain ds where "al_hash_str lib (vk app) = ''0x'' @ map hex_char ds" "length ds = 64"
    "\<forall>d \<in> set ds. d < 16" by (auto simp: hash_conforms_def)
  with a show ?thesis by auto
qed

lemma set_app_unfold:
  assumes "set_app lib f1 f2 between elf i db = Ret (x, db')"
  obtains a r where "App_new lib elf i = Ret a" "get_app lib f1 (app_id a) db = Ret r"
    "(case r of
           Inl e \<Rightarrow> Ret (Inl e, db)
         | Inr (Some _) \<Rightarrow> Ret (Inl (''app already exists '' @ app_id a), db)
         | Inr None \<Rightarrow> set_app_insert lib f2 a (between db)) = Ret (x, db')"
  using assms unfolding set_app_def bind_outcome_eq_Ret by (elim exE conjE) (rule that)

lemma set_app_success:
  assumes "set_app lib f1 f2 between elf i db = Ret (Inr app, db')"
  obtains row where "App_new lib elf i = Ret app" "AppRow_from lib app = Ret row" "f2 = None"
    "row_app_id row = app_id app" "apps (between db) (app_id app) = None"
    "db' = (between db)\<lparr>apps := (apps (between db))(app_id app \<mapsto> row)\<rparr>"
proof -
  obtain a r where a: "App_new lib elf i = Ret a" "get_app lib f1 (app_id a) db = Ret r"
    and k: "(case r of
           Inl e \<Rightarrow> Ret (Inl e, db)
         | Inr (Some _) \<Rightarrow> Ret (Inl (''app already exists '' @ app_id a), db)
         | Inr None \<Rightarrow> set_app_insert lib f2 a (between db)) = Ret (Inr app, db')"
    using assms by (rule set_app_unfold)
  from k have "set_app_insert lib f2 a (between db) = Ret (Inr app, db')" by (auto split: sum.splits option.splits)
  then obtain row where "AppRow_from lib a = Ret row"
    "(case insert_app f2 row (between db) of
        Inl e \<Rightarrow> Ret (Inl e, between db) | Inr db' \<Rightarrow> Ret (Inr a, db')) = Ret (Inr app, db')"
    unfolding set_app_insert_def bind_outcome_eq_Ret by (elim exE conjE) (rule that)
  with a have r: "App_new lib elf i = Ret app" "AppRow_from lib app = Ret row" "insert_app f2 row (between db) = Inr db'"
    by (auto split: sum.splits)
  from r(2) have "row_app_id row = app_id app" by (auto simp: AppRow_from_def outcome_simps)
  with r show ?thesis
    by (intro that) (auto simp: insert_app_def with_fault_def split: option.splits if_splits)
qed

lemma get_app_row:
  assumes "apps db (strip_0x a) = Some row" and "App_from lib row = Ret app"
  shows "get_app lib None a db = Ret (Inr (Some app))"
  using assms by (simp add: get_app_def select_app_def with_fault_def)

lemma set_app_insert_fails: "set_app_insert lib f a db = Ret (Inl e, db') \<Longrightarrow> db' = db"
  unfolding set_app_insert_def bind_outcome_eq_Ret by (elim exE conjE) (auto split: sum.splits)

lemma set_app_failure:
  assumes "set_app lib f1 f2 between elf i db = Ret (Inl e, db')"
  shows "db' = db \<or> db' = between db"
  using assms by (rule set_app_unfold) (auto dest: set_app_insert_fails split: sum.splits option.splits)

text \<open>A library for witnesses: programs are their ELF bytes, keys and codec are trivial.\<close>

definition demo_app_lib :: "(bytes, unit, bytes) app_lib" where
  "demo_app_lib = \<lparr>al_compile = Ret, al_vk_enabled = False, al_get_mut = Some, al_pad = Inr,
     al_setup_keys = (\<lambda>g. ((), g)), al_hash_str = (\<lambda>vk. ''0x'' @ map hex_char (replicate 63 0 @ [length vk mod 16])),
     al_ser_program = Inr, al_ser_pk = (\<lambda>k. Inr []), al_ser_vk = Inr,
     al_de_program = Inr, al_de_pk = (\<lambda>bs. Inr ()), al_de_vk = Inr\<rparr>"

lemma demo_app_lib_conforms: "codec_conforms demo_app_lib" "hash_conforms demo_app_lib"
proof -
  show "codec_conforms demo_app_lib" by (simp add: codec_conforms_def demo_app_lib_def)
  have "\<exists>ds. ''0x'' @ map hex_char (replicate 63 0 @ [n mod 16]) = ''0x'' @ map hex_char ds \<and>
      length ds = 64 \<and> (\<forall>d \<in> set ds. d < 16)" for n :: nat
    by (intro exI [of _ "replicate 63 0 @ [n mod 16]"]) auto
  then show "hash_conforms demo_app_lib" by (simp add: hash_conforms_def demo_app_lib_def)
qed

definition empty_db :: database where
  "empty_db = \<lparr>apps = Map.empty, proofs = Map.empty\<rparr>"

lemma demo_set_app:
  "\<exists>app db'. set_app demo_app_lib None None (\<lambda>db. db) [1, 2] None empty_db = Ret (Inr app, db') \<and>
     program app = [1, 2] \<and> App_new demo_app_lib [1, 2] None = Ret app"
  by (simp add: set_app_def App_new_def AppRow_from_def get_app_def select_app_def with_fault_def set_app_insert_def
      insert_app_def unwrap_result_def demo_app_lib_def empty_db_def)

section \<open>Properties\<close>

text \<open>
  A registered app is found again: after a successful registration, looking up its
  identifier, with or without the prefix \<^verbatim>\<open>0x\<close>, gives back the same program, keys and
  information.
\<close>

lemma registered_app_found:
  assumes "codec_conforms lib" and "hash_conforms lib"
    and "set_app lib f1 f2 between elf i db = Ret (Inr app, db')"
  shows "get_app lib None (app_id app) db' = Ret (Inr (Some app)) \<and>
         get_app lib None (''0x'' @ app_id app) db' = Ret (Inr (Some app))"
proof -
  obtain row where n: "App_new lib elf i = Ret app" and r: "AppRow_from lib app = Ret row"
    and db: "db' = (between db)\<lparr>apps := (apps (between db))(app_id app \<mapsto> row)\<rparr>"
    using assms(3) by (rule set_app_success)
  from App_new_id [OF assms(2) n] obtain ds where "app_id app = map hex_char ds" "\<And>d. d \<in> set ds \<Longrightarrow> d < 16" by auto
  then have "strip_0x (app_id app) = app_id app" by (simp add: strip_0x_hex)
  moreover have "strip_0x (''0x'' @ app_id app) = app_id app" by simp
  ultimately show ?thesis
    using App_row_roundtrip [OF assms(1) r] db by (simp add: get_app_row [of _ _ row])
qed

text \<open>
  C19. Registration never changes a registered app. Whatever happens between the check and the
  insertion, also when the same app is registered in between, a registration adds exactly its
  own row under an identifier that was free at that moment, or leaves the database alone.
\<close>

theorem registration_keeps_rows:
  assumes "set_app lib f1 f2 between elf i db = Ret (r, db')" and "apps db \<subseteq>\<^sub>m apps (between db)"
  shows "apps db \<subseteq>\<^sub>m apps db' \<and>
    (case r of
       Inr app \<Rightarrow> apps (between db) (app_id app) = None \<and>
         (\<exists>row. db' = (between db)\<lparr>apps := (apps (between db))(app_id app \<mapsto> row)\<rparr>)
     | Inl _ \<Rightarrow> db' = db \<or> db' = between db)"
proof (cases r)
  case (Inl e)
  with set_app_failure [of lib f1 f2 between elf i db e db'] assms show ?thesis by auto
next
  case (Inr app)
  with assms(1) obtain row where row: "apps (between db) (app_id app) = None"
    "db' = (between db)\<lparr>apps := (apps (between db))(app_id app \<mapsto> row)\<rparr>"
    by (metis set_app_success)
  with assms(2) have "apps db \<subseteq>\<^sub>m apps db'" by (auto simp: map_le_def dom_def)
  with row Inr show ?thesis by auto
qed

theorem registration_keeps_rows_witness:
  "\<exists>app db'. set_app demo_app_lib None None (\<lambda>db. db) [1, 2] None empty_db = Ret (Inr app, db') \<and>
     (\<exists>row. db' = empty_db\<lparr>apps := (apps empty_db)(app_id app \<mapsto> row)\<rparr>)"
proof -
  obtain app db' where s: "set_app demo_app_lib None None (\<lambda>db. db) [1, 2] None empty_db = Ret (Inr app, db')"
    using demo_set_app by blast
  from registration_keeps_rows [OF s] s show ?thesis by auto
qed

text \<open>
  An identifier that is already registered is refused: with a conforming hash, registering
  a program whose identifier is in the table returns an error and changes nothing.
\<close>

lemma duplicate_app_refused:
  assumes "hash_conforms lib" and "App_new lib elf i = Ret app" and "apps db (app_id app) = Some row"
    and "App_from lib row = Ret old"
  shows "set_app lib None f2 between elf i db = Ret (Inl (''app already exists '' @ app_id app), db)"
proof -
  from App_new_id [OF assms(1,2)] obtain ds where "app_id app = map hex_char ds" "\<And>d. d \<in> set ds \<Longrightarrow> d < 16" by auto
  then have "strip_0x (app_id app) = app_id app" by (simp add: strip_0x_hex)
  then have "get_app lib None (app_id app) db = Ret (Inr (Some old))"
    using assms(3,4) by (intro get_app_row) simp_all
  with assms(2) show ?thesis by (simp add: set_app_def)
qed

end
