(* ===== verification/Proving_Queue.thy ===== *)
theory Proving_Queue
  imports Database
begin

text \<open>
  The proving queue (\<^verbatim>\<open>src/proving_queue.rs\<close>): the state it shares with the service and its
  operations. The loop of the queue is part of theory \<^verbatim>\<open>Server\<close>, where it runs between the requests.
\<close>

section \<open>State and operations\<close>

record queue_state =
  outputs :: proving_outputs
  q_db :: database

text \<open>\<^verbatim>\<open>self.outputs.remove(key).map(|(_, v)| v)\<close>, as the value and the map that remains.\<close>

definition pop_output :: "proving_key \<Rightarrow> proving_outputs \<Rightarrow> proving_output option \<times> proving_outputs" where
  "pop_output key m = (m key, m(key := None))"

definition store_proof_in_db :: "bool \<Rightarrow> string option \<Rightarrow> proving_key \<Rightarrow> bytes \<Rightarrow> database \<Rightarrow> string + database" where
  "store_proof_in_db fk fault key proof_bytes db = replace_proof fk fault key proof_bytes db"

text \<open>Both stores of a finished proof; an error of the database is only logged.\<close>

definition store_proof :: "bool \<Rightarrow> string option \<Rightarrow> proving_key \<Rightarrow> bytes \<Rightarrow> queue_state \<Rightarrow> queue_state" where
  "store_proof fk fault key proof_bytes st =
     (let st1 = st\<lparr>outputs := (outputs st)(key \<mapsto> \<lparr>output_proof = proof_bytes\<rparr>)\<rparr>
      in case store_proof_in_db fk fault key proof_bytes (q_db st1) of
           Inl _ \<Rightarrow> st1
         | Inr db \<Rightarrow> st1\<lparr>q_db := db\<rparr>)"

section \<open>Lemmas\<close>

lemma store_proof_outputs [simp]: "outputs (store_proof fk fault key bs st) = (outputs st)(key \<mapsto> \<lparr>output_proof = bs\<rparr>)"
  by (simp add: store_proof_def Let_def split: sum.splits)

lemma store_proof_db:
  "q_db (store_proof fk fault key bs st) =
     (if fault = None \<and> (fk \<longrightarrow> key_app_id key \<in> dom (apps (q_db st)))
      then (q_db st)\<lparr>proofs := (proofs (q_db st))(key \<mapsto> Some bs)\<rparr> else q_db st)"
  by (auto simp: store_proof_def store_proof_in_db_def replace_proof_def with_fault_def Let_def split: option.splits)

end
