(* ===== verification/Service_Error.thy ===== *)
theory Service_Error
  imports Prelude
begin

text \<open>
  Errors of the service (\<^verbatim>\<open>src/error.rs\<close>) and the error part of the wire format
  (\<^verbatim>\<open>proto/prover_network.proto\<close>): \<^verbatim>\<open>PicoError\<close>, its text, its conversion from an error of the
  emulator and its conversion into a response of \<^verbatim>\<open>EstimateCost\<close>. The error type of the
  emulator is a parameter: whether an error is \<^verbatim>\<open>ExceededCycleLimit\<close>, and its text.
\<close>

section \<open>Wire format\<close>

datatype ErrCode = OK | INVAL | INTERNAL | PROVING_PENDING | PROVING_FAILED | INPUT_EXCEEDED

fun ErrCode_into :: "ErrCode \<Rightarrow> int" where
  "ErrCode_into OK = 0"
| "ErrCode_into INVAL = 1"
| "ErrCode_into INTERNAL = 2"
| "ErrCode_into PROVING_PENDING = 3"
| "ErrCode_into PROVING_FAILED = 4"
| "ErrCode_into INPUT_EXCEEDED = 5"

record ErrMsg =
  err_code :: int
  err_text :: "string option"

record EstimateCostResponse =
  ecr_err :: "ErrMsg option"
  ecr_cost :: u64
  ecr_pv_digest :: bytes

section \<open>Errors\<close>

datatype PicoError = ExceededCycleLimit u64 | InternalError string

fun PicoError_to_string :: "PicoError \<Rightarrow> string" where
  "PicoError_to_string (ExceededCycleLimit c) = ''input exceeded cycle limit of '' @ usize_to_string c"
| "PicoError_to_string (InternalError s) = ''internal error: '' @ s"

record 'x emulation_errors =
  ee_cycle_limit :: "'x \<Rightarrow> u64 option" \<comment> \<open>the argument of \<^verbatim>\<open>ExceededCycleLimit\<close>\<close>
  ee_to_string :: "'x \<Rightarrow> string"

definition PicoError_from :: "'x emulation_errors \<Rightarrow> 'x \<Rightarrow> PicoError" where
  "PicoError_from ee e =
     (case ee_cycle_limit ee e of
        Some cycles \<Rightarrow> ExceededCycleLimit cycles
      | None \<Rightarrow> InternalError (ee_to_string ee e))"

fun EstimateCostResponse_from :: "PicoError \<Rightarrow> EstimateCostResponse" where
  "EstimateCostResponse_from (ExceededCycleLimit c) =
     \<lparr>ecr_err = Some \<lparr>err_code = ErrCode_into INPUT_EXCEEDED,
                       err_text = Some (PicoError_to_string (ExceededCycleLimit c))\<rparr>,
      ecr_cost = 0, ecr_pv_digest = []\<rparr>"
| "EstimateCostResponse_from (InternalError s) =
     \<lparr>ecr_err = Some \<lparr>err_code = ErrCode_into INTERNAL,
                       err_text = Some (PicoError_to_string (InternalError s))\<rparr>,
      ecr_cost = 0, ecr_pv_digest = []\<rparr>"

section \<open>Properties\<close>

lemma PicoError_to_string_inject: "PicoError_to_string a = PicoError_to_string b \<longleftrightarrow> a = b"
  by (cases a; cases b) auto

text \<open>
  The response to a failed estimate identifies the error: different errors give different
  responses, and a response never reports success.
\<close>

lemma estimate_error_distinct:
  "(EstimateCostResponse_from a = EstimateCostResponse_from b) = (a = b) \<and>
   (\<exists>m. ecr_err (EstimateCostResponse_from a) = Some m \<and> err_code m \<noteq> ErrCode_into OK)"
proof -
  have "a = b" if "EstimateCostResponse_from a = EstimateCostResponse_from b"
    using that PicoError_to_string_inject [of a b] by (cases a; cases b) auto
  moreover have "\<exists>m. ecr_err (EstimateCostResponse_from a) = Some m \<and> err_code m \<noteq> ErrCode_into OK"
    by (cases a) auto
  ultimately show ?thesis by auto
qed

end
