(* ===== verification/Cost_Estimation.thy ===== *)
theory Cost_Estimation
  imports Service_Error
begin

unbundle bit_operations_syntax

text \<open>
  Cost estimation (\<^verbatim>\<open>src/cost_estimation.rs\<close>): a trial run of the program on the inputs, the cost
  from the estimator model or from the cycle count, and the digest of the public values cut
  to 253 bits. The whole computation runs under \<^verbatim>\<open>catch_unwind\<close>. pico-vm's emulator and
  estimator and the hash function are fields of the parameter \<^verbatim>\<open>estimator_lib\<close>.
\<close>

section \<open>Code outside the service\<close>

record ('g, 'pk, 'vk, 'x, 'o) estimator_lib =
  cl_new_builder :: 'o
  cl_deserialize :: "bytes \<Rightarrow> string + 'o"
  cl_finalize :: "'o \<Rightarrow> 'o"
  cl_bench_opts :: 'o
  cl_with_cost_estimator :: "'o \<Rightarrow> 'o"
  cl_with_max_cycles :: "'o \<Rightarrow> u64 \<Rightarrow> 'o"
  cl_witness :: "'g \<Rightarrow> 'o \<Rightarrow> 'o \<Rightarrow> 'pk \<Rightarrow> 'vk \<Rightarrow> 'o"
  cl_emulate :: "'o \<Rightarrow> ('x + 'o list \<times> u64 \<times> bytes) outcome" \<comment> \<open>\<^verbatim>\<open>emulate_snapshot_pipeline\<close>\<close>
  cl_model :: "'o outcome" \<comment> \<open>\<^verbatim>\<open>EstimatorModel::from_json\<close>\<close>
  cl_host_estimators :: "'o \<Rightarrow> 'o list option"
  cl_estimate :: "'o \<Rightarrow> 'o \<Rightarrow> usize"
  cl_sha256 :: "bytes \<Rightarrow> bytes"
  cl_errors :: "'x emulation_errors"

section \<open>Estimation\<close>

record EstimatedInfo =
  ei_cost :: u64
  ei_total_cycles :: u64
  ei_pv_digest :: u256

text \<open>\<^verbatim>\<open>U256::from_be_bytes\<close>\<close>

definition u256_from_be_bytes :: "bytes \<Rightarrow> u256" where
  "u256_from_be_bytes bs = of_nat (from_base 256 (map unat bs))"

definition pv_mask :: u256 where
  "pv_mask = push_bit 253 1 - 1"

fun collect_estimators :: "('o \<Rightarrow> 'o list option) \<Rightarrow> 'o list \<Rightarrow> 'o list outcome" where
  "collect_estimators f [] = Ret []"
| "collect_estimators f (r # rs) =
     (case f r of
        None \<Rightarrow> Panic unwrap_none
      | Some es \<Rightarrow> bind_outcome (collect_estimators f rs) (\<lambda>rest. Ret (es @ rest)))"

text \<open>The closure under \<^verbatim>\<open>catch_unwind\<close>; the sum of \<^verbatim>\<open>usize\<close> values wraps in release mode.\<close>

definition run_estimation ::
  "('g, 'pk, 'vk, 'x, 'o) estimator_lib \<Rightarrow> 'g \<Rightarrow> 'pk \<Rightarrow> 'vk \<Rightarrow> bytes option \<Rightarrow> u64 option \<Rightarrow> bool \<Rightarrow>
     (PicoError + EstimatedInfo) outcome" where
  "run_estimation lib program pk vk inputs max_cycles cost_estimator =
     bind_outcome (case inputs of
         None \<Rightarrow> Ret (cl_new_builder lib)
       | Some bs \<Rightarrow> (case cl_deserialize lib bs of
             Inl _ \<Rightarrow> Panic ''called `Result::unwrap()` on an `Err` value''
           | Inr b \<Rightarrow> Ret b)) (\<lambda>stdin_builder.
       let stdin = cl_finalize lib stdin_builder;
           opts = (if cost_estimator then cl_with_cost_estimator lib (cl_bench_opts lib) else cl_bench_opts lib);
           opts = (case max_cycles of Some mc \<Rightarrow> cl_with_max_cycles lib opts mc | None \<Rightarrow> opts);
           witness = cl_witness lib program stdin opts pk vk
       in bind_outcome (cl_emulate lib witness) (\<lambda>r.
         case r of
           Inl e \<Rightarrow> Ret (Inl (PicoError_from (cl_errors lib) e))
         | Inr (reports, total_cycles, pv_stream) \<Rightarrow>
             bind_outcome
               (if cost_estimator
                then bind_outcome (cl_model lib) (\<lambda>model.
                       bind_outcome (collect_estimators (cl_host_estimators lib) reports) (\<lambda>es.
                         Ret (sum_list (map (\<lambda>e. cl_estimate lib e model) es))))
                else Ret total_cycles) (\<lambda>cost.
               let pv_digest = u256_from_be_bytes (cl_sha256 lib pv_stream) AND pv_mask
               in Ret (Inr \<lparr>ei_cost = cost, ei_total_cycles = total_cycles, ei_pv_digest = pv_digest\<rparr>))))"

definition estimate_cost ::
  "('g, 'pk, 'vk, 'x, 'o) estimator_lib \<Rightarrow> 'g \<Rightarrow> 'pk \<Rightarrow> 'vk \<Rightarrow> bytes option \<Rightarrow> u64 option \<Rightarrow> bool \<Rightarrow>
     PicoError + EstimatedInfo" where
  "estimate_cost lib program pk vk inputs max_cycles cost_estimator =
     (case catch_unwind (run_estimation lib program pk vk inputs max_cycles cost_estimator) of
        Inr (Inr info) \<Rightarrow> Inr info
      | Inr (Inl e) \<Rightarrow> Inl e
      | Inl _ \<Rightarrow> Inl (InternalError ''panic during cost estimation Any { .. }''))"

section \<open>The digest\<close>

lemma pv_mask_eq: "pv_mask = mask 253"
  by (simp add: pv_mask_def mask_eq_exp_minus_1)

lemma from_base_bound: "(\<And>d. d \<in> set ds \<Longrightarrow> d < b) \<Longrightarrow> from_base b ds < b ^ length ds"
proof (induction ds rule: rev_induct)
  case (snoc d ds)
  then have "from_base b ds < b ^ length ds" "d < b" by auto
  then have "from_base b ds * b + d < (from_base b ds + 1) * b" by simp
  also have "\<dots> \<le> b ^ length ds * b" using \<open>from_base b ds < b ^ length ds\<close> by (intro mult_right_mono) auto
  finally show ?case by (simp add: from_base_snoc mult.commute)
qed (simp add: from_base_def)

lemma digest_value:
  assumes "length bs = 32"
  shows "unat (u256_from_be_bytes bs AND pv_mask) = from_base 256 (map unat bs) mod 2 ^ 253"
proof -
  have "unat b < 256" for b :: u8 using unsigned_less [where ?'a = nat, of b] by simp
  then have "from_base 256 (map unat bs) < 256 ^ length (map unat bs)" by (intro from_base_bound) auto
  then have lt: "from_base 256 (map unat bs) < 2 ^ 256" using assms by simp
  have "unat (take_bit 253 (u256_from_be_bytes bs)) = take_bit 253 (unat (u256_from_be_bytes bs))"
    by (simp add: unsigned_take_bit_eq)
  also have "unat (u256_from_be_bytes bs) = from_base 256 (map unat bs)"
    unfolding u256_from_be_bytes_def using lt by (simp add: unat_of_nat take_bit_nat_eq_self)
  finally show ?thesis by (simp add: pv_mask_eq take_bit_eq_mask [symmetric] take_bit_eq_mod and.commute)
qed

section \<open>What an estimate says\<close>

text \<open>The trial run of a request: the emulator's answer for its witness, or a panic on the way.\<close>

definition trial_run ::
  "('g, 'pk, 'vk, 'x, 'o) estimator_lib \<Rightarrow> 'g \<Rightarrow> 'pk \<Rightarrow> 'vk \<Rightarrow> bytes option \<Rightarrow> u64 option \<Rightarrow> bool \<Rightarrow>
     ('x + 'o list \<times> u64 \<times> bytes) outcome" where
  "trial_run lib program pk vk inputs max_cycles cost_estimator =
     bind_outcome (case inputs of
         None \<Rightarrow> Ret (cl_new_builder lib)
       | Some bs \<Rightarrow> (case cl_deserialize lib bs of
             Inl _ \<Rightarrow> Panic ''called `Result::unwrap()` on an `Err` value''
           | Inr b \<Rightarrow> Ret b)) (\<lambda>b.
       let opts = (if cost_estimator then cl_with_cost_estimator lib (cl_bench_opts lib) else cl_bench_opts lib)
       in cl_emulate lib (cl_witness lib program (cl_finalize lib b)
            (case max_cycles of Some mc \<Rightarrow> cl_with_max_cycles lib opts mc | None \<Rightarrow> opts) pk vk))"

lemma estimate_cost_cases:
  "estimate_cost lib program pk vk inputs max_cycles ce =
     (case trial_run lib program pk vk inputs max_cycles ce of
        Panic _ \<Rightarrow> Inl (InternalError ''panic during cost estimation Any { .. }'')
      | Ret (Inl e) \<Rightarrow> Inl (PicoError_from (cl_errors lib) e)
      | Ret (Inr (reports, cycles, pv)) \<Rightarrow>
          (case (if ce then bind_outcome (cl_model lib) (\<lambda>model.
                       bind_outcome (collect_estimators (cl_host_estimators lib) reports) (\<lambda>es.
                         Ret (sum_list (map (\<lambda>e. cl_estimate lib e model) es)))) else Ret cycles) of
             Panic _ \<Rightarrow> Inl (InternalError ''panic during cost estimation Any { .. }'')
           | Ret cost \<Rightarrow> Inr \<lparr>ei_cost = cost, ei_total_cycles = cycles,
                              ei_pv_digest = u256_from_be_bytes (cl_sha256 lib pv) AND pv_mask\<rparr>))"
proof -
  let ?b = "case inputs of
         None \<Rightarrow> Ret (cl_new_builder lib)
       | Some bs \<Rightarrow> (case cl_deserialize lib bs of
             Inl _ \<Rightarrow> Panic ''called `Result::unwrap()` on an `Err` value''
           | Inr b \<Rightarrow> Ret b)"
  show ?thesis
  proof (cases ?b)
    case (Ret b)
    then show ?thesis
      by (cases "trial_run lib program pk vk inputs max_cycles ce")
        (auto simp: estimate_cost_def run_estimation_def trial_run_def Let_def bind_outcome_eq_Panic
          split: sum.splits prod.splits outcome.splits)
  qed (simp add: estimate_cost_def run_estimation_def trial_run_def)
qed

lemma collect_estimators_Ret:
  "collect_estimators f rs = Ret es \<longleftrightarrow> (\<forall>r \<in> set rs. f r \<noteq> None) \<and> es = concat (map (\<lambda>r. the (f r)) rs)"
  by (induction rs arbitrary: es) (auto simp: bind_outcome_eq_Ret split: option.splits)

lemma digest_bound:
  assumes "estimate_cost lib program pk vk inputs max_cycles ce = Inr info"
  shows "unat (ei_pv_digest info) < 2 ^ 253"
proof -
  from assms obtain bs where "ei_pv_digest info = u256_from_be_bytes bs AND pv_mask"
    by (auto simp: estimate_cost_cases split: outcome.splits sum.splits prod.splits)
  then have "ei_pv_digest info = take_bit 253 (u256_from_be_bytes bs)"
    by (simp add: pv_mask_eq take_bit_eq_mask)
  then have "unat (ei_pv_digest info) = take_bit 253 (unat (u256_from_be_bytes bs))"
    by (simp add: unsigned_take_bit_eq)
  then show ?thesis by (simp add: take_bit_eq_mod)
qed

text \<open>A library for witnesses: the inputs are the public values, the hash pads to 32 bytes.\<close>

definition demo_estimator :: "('g, 'pk, 'vk, u64, bytes) estimator_lib" where
  "demo_estimator = \<lparr>cl_new_builder = [], cl_deserialize = (\<lambda>bs. if bs = [] then Inl ''eof'' else Inr bs),
     cl_finalize = (\<lambda>b. b), cl_bench_opts = [], cl_with_cost_estimator = (\<lambda>opts. opts),
     cl_with_max_cycles = (\<lambda>opts mc. [ucast mc]), cl_witness = (\<lambda>g b opts pk vk. opts @ b),
     cl_emulate = (\<lambda>w. if length w < 8 then Ret (Inr ([w], of_nat (length w), w)) else Ret (Inl 7)),
     cl_model = Ret [], cl_host_estimators = (\<lambda>r. Some [r, r]), cl_estimate = (\<lambda>e m. of_nat (length e)),
     cl_sha256 = (\<lambda>bs. replicate 32 255), cl_errors = \<lparr>ee_cycle_limit = Some, ee_to_string = (\<lambda>e. ''limit'')\<rparr>\<rparr>"

section \<open>Properties\<close>

text \<open>
  C24. A successful estimate reports the trial run: its cycle count, as cost the sum of all
  host estimates of its reports (modulo \<open>2 ^ 64\<close>) or, without the estimator, the cycle count, and
  as digest the hash of its public values modulo \<open>2 ^ 253\<close>.
\<close>

theorem estimate_reports_run:
  assumes "estimate_cost lib program pk vk inputs max_cycles ce = Inr info"
    and "\<And>bs. length (cl_sha256 lib bs) = 32"
  shows "\<exists>reports cycles pv. trial_run lib program pk vk inputs max_cycles ce = Ret (Inr (reports, cycles, pv)) \<and>
    ei_total_cycles info = cycles \<and>
    (\<not> ce \<longrightarrow> ei_cost info = cycles) \<and>
    (ce \<longrightarrow> (\<exists>model. cl_model lib = Ret model \<and> ei_cost info =
       (\<Sum>e\<leftarrow>concat (map (\<lambda>r. the (cl_host_estimators lib r)) reports). cl_estimate lib e model))) \<and>
    unat (ei_pv_digest info) = from_base 256 (map unat (cl_sha256 lib pv)) mod 2 ^ 253"
proof -
  from assms(1) obtain reports cycles pv cost
    where t: "trial_run lib program pk vk inputs max_cycles ce = Ret (Inr (reports, cycles, pv))"
    and c: "(if ce then bind_outcome (cl_model lib) (\<lambda>model.
                bind_outcome (collect_estimators (cl_host_estimators lib) reports) (\<lambda>es.
                  Ret (sum_list (map (\<lambda>e. cl_estimate lib e model) es)))) else Ret cycles) = Ret cost"
    and i: "info = \<lparr>ei_cost = cost, ei_total_cycles = cycles,
        ei_pv_digest = u256_from_be_bytes (cl_sha256 lib pv) AND pv_mask\<rparr>"
    by (auto simp: estimate_cost_cases split: outcome.splits sum.splits prod.splits)
  from c have "\<not> ce \<longrightarrow> cost = cycles" and "ce \<longrightarrow> (\<exists>model. cl_model lib = Ret model \<and>
      cost = (\<Sum>e\<leftarrow>concat (map (\<lambda>r. the (cl_host_estimators lib r)) reports). cl_estimate lib e model))"
    by (auto simp: bind_outcome_eq_Ret collect_estimators_Ret)
  with t i digest_value [OF assms(2)] show ?thesis by auto
qed

theorem estimate_reports_run_witness:
  "\<exists>info. estimate_cost demo_estimator () () () (Some [1, 2]) (Some 5) True = Inr info \<and> ei_cost info = 6 \<and>
     unat (ei_pv_digest info) = from_base 256 (replicate 32 255) mod 2 ^ 253"
proof -
  have t: "trial_run demo_estimator () () () (Some [1, 2]) (Some 5) True = Ret (Inr ([[5, 1, 2]], 3, [5, 1, 2]))"
    by code_simp
  then obtain info where info: "estimate_cost demo_estimator () () () (Some [1, 2]) (Some 5) True = Inr info"
    by (simp add: estimate_cost_cases) (simp add: demo_estimator_def)
  have sha: "cl_sha256 (demo_estimator :: (unit, unit, unit, u64, bytes) estimator_lib) bs = replicate 32 255" for bs
    by (simp add: demo_estimator_def)
  have "length (cl_sha256 (demo_estimator :: (unit, unit, unit, u64, bytes) estimator_lib) bs) = 32" for bs
    by (simp add: sha)
  from estimate_reports_run [OF info this] t info sha show ?thesis by (auto simp: demo_estimator_def)
qed

text \<open>
  C25. A cycle-limit error is reported exactly when the emulator stopped the trial run for
  exceeding a limit, with that limit; every panic on the way is an internal error.
\<close>

theorem cycle_limit_reported:
  "estimate_cost lib program pk vk inputs max_cycles ce = Inl (ExceededCycleLimit c) \<longleftrightarrow>
   (\<exists>e. trial_run lib program pk vk inputs max_cycles ce = Ret (Inl e) \<and> ee_cycle_limit (cl_errors lib) e = Some c)"
  by (auto simp: estimate_cost_cases PicoError_from_def split: outcome.splits sum.splits prod.splits option.splits)

end
