(* ===== verification/Auth.thy ===== *)
theory Auth
  imports Prelude
begin

text \<open>
  Configuration and authentication (\<^verbatim>\<open>src/config.rs\<close>, \<^verbatim>\<open>src/utils/auth.rs\<close>): the service
  configuration, its validation, and the interceptors that check requests on the server and
  add the bearer token on the client. tonic's header values are a parameter: \<open>parse\<close> is
  \<^verbatim>\<open>MetadataValue::from_str\<close>, equality of values compares their bytes. The metadata of a
  request is a map from header names to values.
\<close>

section \<open>Configuration\<close>

datatype AuthMethod = AuthNone | AuthBearer

record ServiceConfig =
  db_url :: string
  grpc_addr :: string
  auth_method :: AuthMethod
  bearer_token :: "string option"
  max_grpc_msg_size :: usize
  prover_count :: usize
  max_emulation_cycles :: "u64 option"

fun validate_auth :: "ServiceConfig \<Rightarrow> string + unit" where
  "validate_auth cfg =
     (case auth_method cfg of
        AuthNone \<Rightarrow> Inr ()
      | AuthBearer \<Rightarrow>
          (if Option.is_none (bearer_token cfg)
           then Inl ''Bearer token must be provided when auth_method is 'bearer'.''
           else Inr ()))"

definition ServiceConfig_validate :: "ServiceConfig \<Rightarrow> string + unit" where
  "ServiceConfig_validate cfg = validate_auth cfg"

section \<open>Interceptors\<close>

datatype status_code = Unauthenticated | Internal | NotFound

record status =
  st_code :: status_code
  st_message :: string

record ('v, 'b) tonic_request =
  req_metadata :: "string \<rightharpoonup> 'v"
  req_inner :: 'b

definition unauthenticated :: "string \<Rightarrow> status" where
  "unauthenticated msg = \<lparr>st_code = Unauthenticated, st_message = msg\<rparr>"

text \<open>The header value both sides build from the configured token.\<close>

definition bearer_header :: "(string \<Rightarrow> 'v option) \<Rightarrow> string option \<Rightarrow> status + 'v" where
  "bearer_header parse token =
     (case token of
        None \<Rightarrow> Inl (unauthenticated ''Bearer token not configured'')
      | Some t \<Rightarrow>
          (case parse (''Bearer '' @ t) of
             None \<Rightarrow> Inl (unauthenticated ''Invalid token format'')
           | Some v \<Rightarrow> Inr v))"

definition server_auth_interceptor ::
  "(string \<Rightarrow> 'v option) \<Rightarrow> ServiceConfig \<Rightarrow> ('v, 'b) tonic_request \<Rightarrow> status + ('v, 'b) tonic_request" where
  "server_auth_interceptor parse cfg req =
     (case auth_method cfg of
        AuthNone \<Rightarrow> Inr req
      | AuthBearer \<Rightarrow>
          (case bearer_header parse (bearer_token cfg) of
             Inl st \<Rightarrow> Inl st
           | Inr expected_token \<Rightarrow>
               (case req_metadata req ''authorization'' of
                  Some t \<Rightarrow> if t = expected_token then Inr req
                            else Inl (unauthenticated ''Invalid or missing auth token'')
                | None \<Rightarrow> Inl (unauthenticated ''Invalid or missing auth token''))))"

definition client_auth_interceptor ::
  "(string \<Rightarrow> 'v option) \<Rightarrow> ServiceConfig \<Rightarrow> ('v, 'b) tonic_request \<Rightarrow> status + ('v, 'b) tonic_request" where
  "client_auth_interceptor parse cfg req =
     (case auth_method cfg of
        AuthNone \<Rightarrow> Inr req
      | AuthBearer \<Rightarrow>
          (case bearer_header parse (bearer_token cfg) of
             Inl st \<Rightarrow> Inl st
           | Inr header \<Rightarrow> Inr (req\<lparr>req_metadata := (req_metadata req)(''authorization'' \<mapsto> header)\<rparr>)))"

section \<open>The contract of a guard\<close>

text \<open>
  A guard stands in front of a service: it lets a request through unchanged or refuses it,
  and a client that signs with the same secret gets through.
\<close>

locale request_guard =
  fixes guard :: "'c \<Rightarrow> ('v, 'b) tonic_request \<Rightarrow> status + ('v, 'b) tonic_request"
    and sign :: "'c \<Rightarrow> ('v, 'b) tonic_request \<Rightarrow> status + ('v, 'b) tonic_request"
  assumes guard_transparent: "guard c req = Inr req' \<Longrightarrow> req' = req"
    and sign_keeps_inner: "sign c req = Inr req' \<Longrightarrow> req_inner req' = req_inner req"
    and signed_passes: "sign c req = Inr req' \<Longrightarrow> guard c req' = Inr req'"
begin

text \<open>The service behind the guard sees the body the client sent.\<close>

lemma guarded_call:
  assumes "sign c req = Inr req'"
  shows "\<exists>r. guard c req' = Inr r \<and> req_inner r = req_inner req"
  using signed_passes [OF assms] sign_keeps_inner [OF assms] by auto

end

interpretation auth: request_guard "server_auth_interceptor parse" "client_auth_interceptor parse" for parse
  by unfold_locales
    (auto simp: server_auth_interceptor_def client_auth_interceptor_def
      split: AuthMethod.splits sum.splits option.splits if_splits)

section \<open>Properties\<close>

definition demo_cfg :: ServiceConfig where
  "demo_cfg = \<lparr>db_url = ''sqlite://pico_proving_service.db'', grpc_addr = ''[::]:50052'', auth_method = AuthBearer,
     bearer_token = Some ''secret'', max_grpc_msg_size = 1073741824, prover_count = 1, max_emulation_cycles = None\<rparr>"

text \<open>
  C27. A client that signs its requests with the service's configuration gets through to the
  service, with the body it sent.
\<close>

theorem authenticated_call:
  assumes "client_auth_interceptor parse cfg req = Inr sreq"
  shows "\<exists>r. server_auth_interceptor parse cfg sreq = Inr r \<and> req_inner r = req_inner req"
  by (rule auth.guarded_call [OF assms])

theorem authenticated_call_witness:
  "\<exists>r. server_auth_interceptor Some demo_cfg
     \<lparr>req_metadata = [''authorization'' \<mapsto> ''Bearer secret''], req_inner = (7 :: nat)\<rparr> = Inr r \<and> req_inner r = 7"
proof -
  have "client_auth_interceptor Some demo_cfg \<lparr>req_metadata = Map.empty, req_inner = (7 :: nat)\<rparr> =
      Inr \<lparr>req_metadata = [''authorization'' \<mapsto> ''Bearer secret''], req_inner = 7\<rparr>"
    by (simp add: client_auth_interceptor_def demo_cfg_def bearer_header_def)
  from authenticated_call [OF this] show ?thesis by simp
qed

text \<open>
  C28. Under bearer authentication only requests with the configured token get through: the
  token is configured, is a valid header value, and is the value of the authorization
  header; and they get through unchanged.
\<close>

theorem only_token_passes:
  "auth_method cfg = AuthBearer \<Longrightarrow>
   server_auth_interceptor parse cfg req = Inr r \<longleftrightarrow>
     r = req \<and> (\<exists>token v. bearer_token cfg = Some token \<and> parse (''Bearer '' @ token) = Some v \<and>
       req_metadata req ''authorization'' = Some v)"
  by (auto simp: server_auth_interceptor_def bearer_header_def split: option.splits if_splits)

theorem only_token_passes_witness:
  "server_auth_interceptor Some demo_cfg \<lparr>req_metadata = [''authorization'' \<mapsto> ''Bearer wrong''], req_inner = (7 :: nat)\<rparr>
     \<noteq> Inr \<lparr>req_metadata = [''authorization'' \<mapsto> ''Bearer wrong''], req_inner = 7\<rparr>"
proof -
  have "auth_method demo_cfg = AuthBearer" by (simp add: demo_cfg_def)
  then show ?thesis by (simp add: only_token_passes) (simp add: demo_cfg_def)
qed

text \<open>
  Validation fails exactly for the configurations under which the server refuses every
  request for want of a configured token.
\<close>

lemma validation_exact:
  fixes parse :: "string \<Rightarrow> 'v option"
  shows "(\<exists>e. ServiceConfig_validate cfg = Inl e) \<longleftrightarrow>
    (\<forall>req :: ('v, 'b) tonic_request.
       server_auth_interceptor parse cfg req = Inl (unauthenticated ''Bearer token not configured''))"
proof (cases "auth_method cfg = AuthBearer \<and> bearer_token cfg = None")
  case True
  then show ?thesis by (simp add: ServiceConfig_validate_def server_auth_interceptor_def bearer_header_def)
next
  case False
  then have "ServiceConfig_validate cfg = Inr ()"
    by (cases "auth_method cfg") (auto simp: ServiceConfig_validate_def)
  moreover have "server_auth_interceptor parse cfg req \<noteq> Inl (unauthenticated ''Bearer token not configured'')"
    for req :: "('v, 'b) tonic_request"
    using False by (cases "auth_method cfg")
      (auto simp: server_auth_interceptor_def bearer_header_def unauthenticated_def split: option.splits)
  ultimately show ?thesis by simp
qed

end
