(* ===== verification/Grpc.thy ===== *)
theory Grpc
  imports App_Manager Proving_Queue Cost_Estimation Auth
begin

text \<open>
  The gRPC service (\<^verbatim>\<open>src/grpc.rs\<close>): the four handlers over the shared state of the service,
  the database, the map of outputs and the channel to the proving queue. A handler returns a
  response or a status, and the new state; a panic inside a handler is a panic of its
  request. Faults of the database are arguments as in theory \<^verbatim>\<open>Database\<close>; \<open>closed\<close> is the error
  of the channel when its receiver is gone.
\<close>

section \<open>Requests and responses\<close>

record RegisterAppRequest =
  rar_elf :: bytes
  rar_info :: "string option"

record RegisterAppResponse =
  rares_err :: "ErrMsg option"
  rares_app_id :: string

record EstimateCostRequest =
  ecq_app_id :: string
  ecq_inputs :: "bytes option"

record ProveTaskRequest =
  ptq_app_id :: string
  ptq_task_id :: string
  ptq_inputs :: "bytes option"
  ptq_use_gpu :: "bool option"

record ProveTaskResponse =
  ptres_err :: "ErrMsg option"

record GetProvingResultRequest =
  gpq_app_id :: string
  gpq_task_id :: string

record GetProvingResultResponse =
  gpres_err :: "ErrMsg option"
  gpres_proof :: "bytes option"

datatype rpc =
    CallRegisterApp RegisterAppRequest
  | CallEstimateCost EstimateCostRequest
  | CallProveTask ProveTaskRequest
  | CallGetProvingResult GetProvingResultRequest

datatype rpc_response =
    RegisterAppReply RegisterAppResponse
  | EstimateCostReply EstimateCostResponse
  | ProveTaskReply ProveTaskResponse
  | GetProvingResultReply GetProvingResultResponse

section \<open>State\<close>

record ('g, 'pk, 'vk) service =
  cfg :: ServiceConfig
  sv :: queue_state \<comment> \<open>\<^verbatim>\<open>outputs\<close> and \<^verbatim>\<open>db_pool\<close>, shared with the queue\<close>
  sent :: "('g, 'pk, 'vk) proving_task list" \<comment> \<open>sent through \<^verbatim>\<open>sender\<close>, not yet received\<close>

definition GrpcService_new :: "ServiceConfig \<Rightarrow> database \<Rightarrow> proving_outputs \<Rightarrow> ('g, 'pk, 'vk) service" where
  "GrpcService_new c db m = \<lparr>cfg = c, sv = \<lparr>outputs = m, q_db = db\<rparr>, sent = []\<rparr>"

abbreviation db_of :: "('g, 'pk, 'vk) service \<Rightarrow> database" where
  "db_of s \<equiv> q_db (sv s)"

definition internal :: "string \<Rightarrow> status" where
  "internal msg = \<lparr>st_code = Internal, st_message = msg\<rparr>"

definition not_found :: "string \<Rightarrow> status" where
  "not_found msg = \<lparr>st_code = NotFound, st_message = msg\<rparr>"

section \<open>Handlers\<close>

definition register_app ::
  "('g, 'pk, 'vk) app_lib \<Rightarrow> string option \<Rightarrow> string option \<Rightarrow> (database \<Rightarrow> database) \<Rightarrow> RegisterAppRequest \<Rightarrow>
     ('g, 'pk, 'vk) service \<Rightarrow> ((status + RegisterAppResponse) \<times> ('g, 'pk, 'vk) service) outcome" where
  "register_app lib f1 f2 between req s =
     bind_outcome (set_app lib f1 f2 between (rar_elf req) (rar_info req) (db_of s)) (\<lambda>(r, db).
       let s' = s\<lparr>sv := (sv s)\<lparr>q_db := db\<rparr>\<rparr>
       in case r of
            Inl e \<Rightarrow> Ret (Inl (internal (''failed to register app: '' @ e)), s')
          | Inr app \<Rightarrow> Ret (Inr \<lparr>rares_err = None, rares_app_id = app_id app\<rparr>, s'))"

text \<open>\<^verbatim>\<open>get_app(&app_id).await.map_err(...)?.ok_or_else(...)?\<close>\<close>

definition require_app ::
  "('g, 'pk, 'vk) app_lib \<Rightarrow> string option \<Rightarrow> string \<Rightarrow> database \<Rightarrow> (status + ('g, 'pk, 'vk) App) outcome" where
  "require_app lib fault a db =
     bind_outcome (get_app lib fault a db) (\<lambda>r.
       case r of
         Inl e \<Rightarrow> Ret (Inl (internal (''failed to get app: '' @ e)))
       | Inr None \<Rightarrow> Ret (Inl (not_found (''cannot find app '' @ a)))
       | Inr (Some app) \<Rightarrow> Ret (Inr app))"

definition estimate_cost_handler ::
  "('g, 'pk, 'vk) app_lib \<Rightarrow> ('g, 'pk, 'vk, 'x, 'o) estimator_lib \<Rightarrow> string option \<Rightarrow> EstimateCostRequest \<Rightarrow>
     ('g, 'pk, 'vk) service \<Rightarrow> (status + EstimateCostResponse) outcome" where
  "estimate_cost_handler lib est fault req s =
     bind_outcome (require_app lib fault (ecq_app_id req) (db_of s)) (\<lambda>r.
       case r of
         Inl st \<Rightarrow> Ret (Inl st)
       | Inr app \<Rightarrow>
           Ret (Inr (case estimate_cost est (program app) (pk app) (vk app) (ecq_inputs req)
                          (max_emulation_cycles (cfg s)) True of
                       Inr ei \<Rightarrow> \<lparr>ecr_err = None, ecr_cost = ei_cost ei,
                                  ecr_pv_digest = be_bytes 32 (unat (ei_pv_digest ei))\<rparr>
                     | Inl e \<Rightarrow> EstimateCostResponse_from e)))"

text \<open>The task built from a request and its app.\<close>

definition task_for :: "ProveTaskRequest \<Rightarrow> ('g, 'pk, 'vk) App \<Rightarrow> ('g, 'pk, 'vk) proving_task" where
  "task_for req app =
     (let key = ProvingKey_new (ptq_app_id req) (ptq_task_id req);
          gpu = (case ptq_use_gpu req of Some b \<Rightarrow> b | None \<Rightarrow> False)
      in \<lparr>task_key = key, task_program = program app, task_pk = pk app, task_vk = vk app,
          task_inputs = ptq_inputs req, use_gpu = gpu\<rparr>)"

definition prove_task ::
  "('g, 'pk, 'vk) app_lib \<Rightarrow> string option \<Rightarrow> string option \<Rightarrow> ProveTaskRequest \<Rightarrow>
     ('g, 'pk, 'vk) service \<Rightarrow> ((status + ProveTaskResponse) \<times> ('g, 'pk, 'vk) service) outcome" where
  "prove_task lib fault closed req s =
     bind_outcome (require_app lib fault (ptq_app_id req) (db_of s)) (\<lambda>r.
       case r of
         Inl st \<Rightarrow> Ret (Inl st, s)
       | Inr app \<Rightarrow>
           (case closed of
              Some e \<Rightarrow> Ret (Inl (internal (''failed to send a proving task: '' @ e)), s)
            | None \<Rightarrow> Ret (Inr \<lparr>ptres_err = None\<rparr>, s\<lparr>sent := sent s @ [task_for req app]\<rparr>)))"

text \<open>The lookup of a proof, first in memory (which forgets it), then in the database.\<close>

definition fetch_proof :: "string option \<Rightarrow> proving_key \<Rightarrow> queue_state \<Rightarrow> (string + bytes option) \<times> queue_state" where
  "fetch_proof fault key st =
     (case pop_output key (outputs st) of
        (Some out, m) \<Rightarrow> (Inr (Some (output_proof out)), st\<lparr>outputs := m\<rparr>)
      | (None, m) \<Rightarrow>
          ((case select_proof fault key (q_db st) of
              Inl e \<Rightarrow> Inl e
            | Inr row \<Rightarrow> Inr (Option.bind row (\<lambda>column. column))), st\<lparr>outputs := m\<rparr>))"

definition get_proving_result ::
  "string option \<Rightarrow> GetProvingResultRequest \<Rightarrow> ('g, 'pk, 'vk) service \<Rightarrow>
     (status + GetProvingResultResponse) \<times> ('g, 'pk, 'vk) service" where
  "get_proving_result fault req s =
     (let key = ProvingKey_new (gpq_app_id req) (gpq_task_id req)
      in case fetch_proof fault key (sv s) of
           (Inl e, st) \<Rightarrow> (Inl (internal (''failed to get proof from database: '' @ e)), s\<lparr>sv := st\<rparr>)
         | (Inr p, st) \<Rightarrow> (Inr \<lparr>gpres_err = None, gpres_proof = p\<rparr>, s\<lparr>sv := st\<rparr>))"

text \<open>The handler of each call, on a database and a channel that answer.\<close>

definition dispatch ::
  "('g, 'pk, 'vk) app_lib \<Rightarrow> ('g, 'pk, 'vk, 'x, 'o) estimator_lib \<Rightarrow> rpc \<Rightarrow> ('g, 'pk, 'vk) service \<Rightarrow>
     ((status + rpc_response) \<times> ('g, 'pk, 'vk) service) outcome" where
  "dispatch lib est call s =
     (case call of
        CallRegisterApp q \<Rightarrow> bind_outcome (register_app lib None None (\<lambda>db. db) q s)
          (\<lambda>(r, s'). Ret (map_sum id RegisterAppReply r, s'))
      | CallEstimateCost q \<Rightarrow> bind_outcome (estimate_cost_handler lib est None q s)
          (\<lambda>r. Ret (map_sum id EstimateCostReply r, s))
      | CallProveTask q \<Rightarrow> bind_outcome (prove_task lib None None q s)
          (\<lambda>(r, s'). Ret (map_sum id ProveTaskReply r, s'))
      | CallGetProvingResult q \<Rightarrow>
          (case get_proving_result None q s of (r, s') \<Rightarrow> Ret (map_sum id GetProvingResultReply r, s')))"

section \<open>The store of results as a map\<close>

text \<open>
  What clients of the service rely on: results are delivered under a key and can be fetched
  any number of times. \<open>ok k s\<close> says that results for \<open>k\<close> are accepted in \<open>s\<close>.
\<close>

locale result_store =
  fixes inv :: "'s \<Rightarrow> bool" and ok :: "'k \<Rightarrow> 's \<Rightarrow> bool"
    and deliver :: "'k \<Rightarrow> 'v \<Rightarrow> 's \<Rightarrow> 's" and fetch :: "'k \<Rightarrow> 's \<Rightarrow> 'v option \<times> 's"
  assumes inv_deliver: "inv s \<Longrightarrow> ok k s \<Longrightarrow> inv (deliver k v s)"
    and inv_fetch: "inv s \<Longrightarrow> inv (snd (fetch k s))"
    and ok_deliver: "ok j (deliver k v s) = ok j s"
    and ok_fetch: "ok j (snd (fetch k s)) = ok j s"
    and fetch_deliver: "inv s \<Longrightarrow> ok k s \<Longrightarrow> fst (fetch j (deliver k v s)) = (if j = k then Some v else fst (fetch j s))"
    and fetch_fetch: "inv s \<Longrightarrow> fst (fetch j (snd (fetch k s))) = fst (fetch j s)"
begin

text \<open>The abstraction: the map of the results that can be fetched.\<close>

definition results :: "'s \<Rightarrow> 'k \<rightharpoonup> 'v" where
  "results s = (\<lambda>k. fst (fetch k s))"

lemma results_deliver: "inv s \<Longrightarrow> ok k s \<Longrightarrow> results (deliver k v s) = (results s)(k \<mapsto> v)"
  by (auto simp: results_def fun_eq_iff fetch_deliver)

lemma results_fetch: "inv s \<Longrightarrow> results (snd (fetch k s)) = results s"
  by (simp add: results_def fetch_fetch)

text \<open>Runs of deliveries (\<open>Inl\<close>) and fetches (\<open>Inr\<close>), with what the fetches returned.\<close>

fun run_ops :: "('k \<times> 'v + 'k) list \<Rightarrow> 's \<Rightarrow> 'v option list \<times> 's" where
  "run_ops [] s = ([], s)"
| "run_ops (Inl (k, v) # ops) s = run_ops ops (deliver k v s)"
| "run_ops (Inr k # ops) s =
     (let (v, s1) = fetch k s; (vs, s2) = run_ops ops s1 in (v # vs, s2))"

fun spec_ops :: "('k \<times> 'v + 'k) list \<Rightarrow> ('k \<rightharpoonup> 'v) \<Rightarrow> 'v option list" where
  "spec_ops [] m = []"
| "spec_ops (Inl (k, v) # ops) m = spec_ops ops (m(k \<mapsto> v))"
| "spec_ops (Inr k # ops) m = m k # spec_ops ops m"

lemma run_refines_spec:
  assumes "inv s" and "\<forall>k v. Inl (k, v) \<in> set ops \<longrightarrow> ok k s"
  shows "fst (run_ops ops s) = spec_ops ops (results s)"
  using assms
proof (induction ops s rule: run_ops.induct)
  case (2 k v ops s)
  then have k: "ok k s" by auto
  then have "inv (deliver k v s)" using 2(2) by (intro inv_deliver)
  moreover have "\<forall>j w. Inl (j, w) \<in> set ops \<longrightarrow> ok j (deliver k v s)" using 2(3) by (auto simp: ok_deliver)
  ultimately have "fst (run_ops ops (deliver k v s)) = spec_ops ops (results (deliver k v s))" by (rule 2(1))
  with results_deliver [OF 2(2) k] show ?case by simp
next
  case (3 k ops s)
  obtain v s1 where f: "fetch k s = (v, s1)" by (cases "fetch k s")
  have "inv s1" using inv_fetch [OF 3(2), of k] f by simp
  moreover have "ok j s1 = ok j s" for j using ok_fetch [of j k s] f by simp
  ultimately have "fst (run_ops ops s1) = spec_ops ops (results s1)" using 3 f by auto
  moreover have "results s1 = results s" using results_fetch [OF 3(2), of k] f by simp
  ultimately show ?case by (simp add: f results_def Let_def case_prod_beta)
qed simp

end

text \<open>
  The queue delivers with \<open>store_proof\<close>, the handler fetches with \<open>fetch_proof\<close>, both on a database
  that answers. The invariant: what is in memory is in the database too.
\<close>

definition synced :: "queue_state \<Rightarrow> bool" where
  "synced st \<longleftrightarrow> (\<forall>k out. outputs st k = Some out \<longrightarrow> proofs (q_db st) k = Some (Some (output_proof out)))"

definition accepts :: "bool \<Rightarrow> proving_key \<Rightarrow> queue_state \<Rightarrow> bool" where
  "accepts fk k st \<longleftrightarrow> (fk \<longrightarrow> key_app_id k \<in> dom (apps (q_db st)))"

definition fetch_ok :: "proving_key \<Rightarrow> queue_state \<Rightarrow> bytes option \<times> queue_state" where
  "fetch_ok k st = (case fetch_proof None k st of (Inr p, st') \<Rightarrow> (p, st') | (Inl _, st') \<Rightarrow> (None, st'))"

lemma fetch_ok_eq:
  "fetch_ok k st = (case outputs st k of Some out \<Rightarrow> Some (output_proof out)
     | None \<Rightarrow> Option.bind (proofs (q_db st) k) (\<lambda>column. column), st\<lparr>outputs := (outputs st)(k := None)\<rparr>)"
  by (auto simp: fetch_ok_def fetch_proof_def pop_output_def select_proof_def with_fault_def split: option.splits)

interpretation rs: result_store synced "accepts fk" "store_proof fk None" fetch_ok for fk
  by unfold_locales
    (auto simp: synced_def accepts_def fetch_ok_eq store_proof_db split: option.splits if_splits)

section \<open>Sequences of deliveries and fetches\<close>

datatype client_op = Deliver proving_key bytes | Fetch proving_key

text \<open>The service on a sequence of operations: the answers of the fetches, in order.\<close>

fun client_run :: "bool \<Rightarrow> client_op list \<Rightarrow> queue_state \<Rightarrow> bytes option list" where
  "client_run fk [] st = []"
| "client_run fk (Deliver k bs # ops) st = client_run fk ops (store_proof fk None k bs st)"
| "client_run fk (Fetch k # ops) st = fst (fetch_ok k st) # client_run fk ops (snd (fetch_ok k st))"

text \<open>The specification: a map that only deliveries change.\<close>

fun spec_run :: "client_op list \<Rightarrow> (proving_key \<rightharpoonup> bytes) \<Rightarrow> bytes option list" where
  "spec_run [] m = []"
| "spec_run (Deliver k bs # ops) m = spec_run ops (m(k \<mapsto> bs))"
| "spec_run (Fetch k # ops) m = m k # spec_run ops m"

fun as_sum :: "client_op \<Rightarrow> proving_key \<times> bytes + proving_key" where
  "as_sum (Deliver k bs) = Inl (k, bs)"
| "as_sum (Fetch k) = Inr k"

lemma client_run_eq: "client_run fk ops st = fst (rs.run_ops fk (map as_sum ops) st)"
proof (induction ops arbitrary: st)
  case (Cons c ops)
  then show ?case by (cases c) (simp_all add: Let_def case_prod_beta)
qed simp

lemma spec_run_eq: "spec_run ops m = rs.spec_ops (map as_sum ops) m"
proof (induction ops arbitrary: m)
  case (Cons c ops)
  then show ?case by (cases c) (simp_all add: fun_upd_def)
qed simp

lemma as_sum_Inl: "as_sum c = Inl (k, bs) \<longleftrightarrow> c = Deliver k bs"
  by (cases c) auto

lemma get_proving_result_fetch:
  "get_proving_result None req s =
     (Inr \<lparr>gpres_err = None, gpres_proof = fst (fetch_ok (ProvingKey_new (gpq_app_id req) (gpq_task_id req)) (sv s))\<rparr>,
      s\<lparr>sv := snd (fetch_ok (ProvingKey_new (gpq_app_id req) (gpq_task_id req)) (sv s))\<rparr>)"
  by (auto simp: get_proving_result_def fetch_ok_def fetch_proof_def pop_output_def select_proof_def with_fault_def
      Let_def split: option.splits)

lemma register_app_success:
  assumes "register_app lib f1 f2 between req s = Ret (Inr res, s')"
  obtains app db where "set_app lib f1 f2 between (rar_elf req) (rar_info req) (db_of s) = Ret (Inr app, db)"
    "res = \<lparr>rares_err = None, rares_app_id = app_id app\<rparr>" "s' = s\<lparr>sv := (sv s)\<lparr>q_db := db\<rparr>\<rparr>"
proof -
  obtain y where y: "set_app lib f1 f2 between (rar_elf req) (rar_info req) (db_of s) = Ret y"
    and k: "(case y of (r, db) \<Rightarrow> case r of
            Inl e \<Rightarrow> Ret (Inl (internal (''failed to register app: '' @ e)), s\<lparr>sv := (sv s)\<lparr>q_db := db\<rparr>\<rparr>)
          | Inr app \<Rightarrow> Ret (Inr \<lparr>rares_err = None, rares_app_id = app_id app\<rparr>, s\<lparr>sv := (sv s)\<lparr>q_db := db\<rparr>\<rparr>)) =
      Ret (Inr res, s')"
    using assms unfolding register_app_def bind_outcome_eq_Ret Let_def by (elim exE conjE) (rule that)
  show ?thesis
  proof (cases y)
    case (Pair r db)
    with y k that show ?thesis by (cases r) auto
  qed
qed

lemma require_app_found:
  "get_app lib fault a db = Ret (Inr (Some app)) \<Longrightarrow> require_app lib fault a db = Ret (Inr app)"
  by (simp add: require_app_def)

lemma estimate_handler_success:
  fixes lib :: "('g, 'pk, 'vk) app_lib"
  assumes "estimate_cost_handler lib est fault req s = Ret (Inr res)"
  obtains app :: "('g, 'pk, 'vk) App" where "res = (case estimate_cost est (program app) (pk app) (vk app) (ecq_inputs req)
                          (max_emulation_cycles (cfg s)) True of
                       Inr ei \<Rightarrow> \<lparr>ecr_err = None, ecr_cost = ei_cost ei,
                                  ecr_pv_digest = be_bytes 32 (unat (ei_pv_digest ei))\<rparr>
                     | Inl e \<Rightarrow> EstimateCostResponse_from e)"
proof (cases "require_app lib fault (ecq_app_id req) (db_of s)")
  case (Ret r)
  show ?thesis
  proof (cases r)
    case (Inr app)
    with Ret assms have "Ret (Inr res) = Ret (Inr (case estimate_cost est (program app) (pk app) (vk app) (ecq_inputs req)
                          (max_emulation_cycles (cfg s)) True of
                       Inr ei \<Rightarrow> \<lparr>ecr_err = None, ecr_cost = ei_cost ei,
                                  ecr_pv_digest = be_bytes 32 (unat (ei_pv_digest ei))\<rparr>
                     | Inl e \<Rightarrow> EstimateCostResponse_from e))"
      by (simp add: estimate_cost_handler_def)
    then show ?thesis by (intro that [of app]) simp
  qed (use Ret assms in \<open>simp add: estimate_cost_handler_def\<close>)
qed (use assms in \<open>simp add: estimate_cost_handler_def\<close>)

text \<open>
  A result request never reports a failure of the task: for a key without a proof, pending,
  failed or unknown, the answer is success without a proof, and the state is unchanged.
\<close>

lemma missing_result_ok:
  assumes "outputs (sv s) (ProvingKey_new (gpq_app_id req) (gpq_task_id req)) = None"
    and "proofs (db_of s) (ProvingKey_new (gpq_app_id req) (gpq_task_id req)) = None"
  shows "get_proving_result None req s = (Inr \<lparr>gpres_err = None, gpres_proof = None\<rparr>, s)"
  using assms by (simp add: get_proving_result_fetch fetch_ok_eq fun_upd_idem)

section \<open>Properties\<close>


definition demo_row :: AppRow where
  "demo_row = \<lparr>row_app_id = ''ab'', row_program = [], row_pk = [], row_vk = [], row_info = None\<rparr>"

definition demo_queue :: queue_state where
  "demo_queue = \<lparr>outputs = Map.empty, q_db = \<lparr>apps = [''ab'' \<mapsto> demo_row], proofs = Map.empty\<rparr>\<rparr>"


text \<open>
  C18. A registered app can be used at once: after a successful registration a proving request
  with the returned identifier, with or without \<^verbatim>\<open>0x\<close>, is accepted and enqueues a task with the
  program and the keys of exactly that app, behind all tasks sent before.
\<close>

theorem registered_app_proves:
  assumes "codec_conforms lib" and "hash_conforms lib"
    and "register_app lib f1 f2 between req s = Ret (Inr res, s')"
    and "ptq_app_id q \<in> {rares_app_id res, ''0x'' @ rares_app_id res}"
  shows "\<exists>app task. App_new lib (rar_elf req) (rar_info req) = Ret app \<and>
    prove_task lib None None q s' = Ret (Inr \<lparr>ptres_err = None\<rparr>, s'\<lparr>sent := sent s @ [task]\<rparr>) \<and>
    task_program task = program app \<and> task_pk task = pk app \<and> task_vk task = vk app \<and>
    task_key task = ProvingKey_new (ptq_app_id q) (ptq_task_id q) \<and> task_inputs task = ptq_inputs q"
proof -
  obtain app db where a: "set_app lib f1 f2 between (rar_elf req) (rar_info req) (db_of s) = Ret (Inr app, db)"
    and res: "res = \<lparr>rares_err = None, rares_app_id = app_id app\<rparr>" and s': "s' = s\<lparr>sv := (sv s)\<lparr>q_db := db\<rparr>\<rparr>"
    using assms(3) by (rule register_app_success)
  have n: "App_new lib (rar_elf req) (rar_info req) = Ret app" using a by (rule set_app_success)
  have "require_app lib None (ptq_app_id q) (db_of s') = Ret (Inr app)"
    using registered_app_found [OF assms(1,2) a] assms(4) res s' by (intro require_app_found) auto
  with n s' show ?thesis by (auto simp: prove_task_def task_for_def Let_def)
qed

lemma demo_register:
  "\<exists>res s'. register_app demo_app_lib None None (\<lambda>db. db) \<lparr>rar_elf = [1, 2], rar_info = None\<rparr>
     (GrpcService_new demo_cfg empty_db Map.empty) = Ret (Inr res, s')"
proof -
  obtain app db where "set_app demo_app_lib None None (\<lambda>db. db) [1, 2] None empty_db = Ret (Inr app, db)"
    using demo_set_app by blast
  then show ?thesis by (simp add: register_app_def GrpcService_new_def)
qed

theorem registered_app_proves_witness:
  "\<exists>res s' task. register_app demo_app_lib None None (\<lambda>db. db) \<lparr>rar_elf = [1, 2], rar_info = None\<rparr>
       (GrpcService_new demo_cfg empty_db Map.empty) = Ret (Inr res, s') \<and>
     prove_task demo_app_lib None None \<lparr>ptq_app_id = ''0x'' @ rares_app_id res, ptq_task_id = ''t'', ptq_inputs = None,
       ptq_use_gpu = None\<rparr> s' = Ret (Inr \<lparr>ptres_err = None\<rparr>, s'\<lparr>sent := [task]\<rparr>)"
proof -
  obtain res s' where r: "register_app demo_app_lib None None (\<lambda>db. db) \<lparr>rar_elf = [1, 2], rar_info = None\<rparr>
     (GrpcService_new demo_cfg empty_db Map.empty) = Ret (Inr res, s')"
    using demo_register by blast
  from registered_app_proves [OF demo_app_lib_conforms r, of "\<lparr>ptq_app_id = ''0x'' @ rares_app_id res,
      ptq_task_id = ''t'', ptq_inputs = None, ptq_use_gpu = None\<rparr>"] r
  show ?thesis by (simp add: GrpcService_new_def) blast
qed



text \<open>
  C26. A successful cost estimate carries the digest as 32 bytes, whose big-endian value is below
  \<open>2 ^ 253\<close>; a failed one carries cost 0, no digest and an error code that tells an exceeded cycle
  limit from other failures.
\<close>

theorem estimate_response:
  fixes lib :: "('g, 'pk, 'vk) app_lib"
  assumes "estimate_cost_handler lib est fault req s = Ret (Inr res)"
  shows "(ecr_err res = None \<and> length (ecr_pv_digest res) = 32 \<and>
      from_base 256 (map unat (ecr_pv_digest res)) < 2 ^ 253)
    \<or> (\<exists>m. ecr_err res = Some m \<and> ecr_cost res = 0 \<and> ecr_pv_digest res = [] \<and>
        (err_code m = ErrCode_into INPUT_EXCEEDED \<or> err_code m = ErrCode_into INTERNAL))"
proof -
  obtain app :: "('g, 'pk, 'vk) App" where "res = (case estimate_cost est (program app) (pk app) (vk app) (ecq_inputs req)
                          (max_emulation_cycles (cfg s)) True of
                       Inr ei \<Rightarrow> \<lparr>ecr_err = None, ecr_cost = ei_cost ei,
                                  ecr_pv_digest = be_bytes 32 (unat (ei_pv_digest ei))\<rparr>
                     | Inl e \<Rightarrow> EstimateCostResponse_from e)"
    using assms by (rule estimate_handler_success)
  then show ?thesis
  proof (cases "estimate_cost est (program app) (pk app) (vk app) (ecq_inputs req) (max_emulation_cycles (cfg s)) True")
    case (Inl e)
    with \<open>res = _\<close> show ?thesis by (cases e) auto
  next
    case (Inr ei)
    have "unat (ei_pv_digest ei) mod 256 ^ 32 < 2 ^ 253"
      using digest_bound [OF Inr] by (rule le_less_trans [OF mod_less_eq_dividend])
    with Inr \<open>res = _\<close> show ?thesis by (simp add: from_base_be_bytes)
  qed
qed

theorem estimate_response_witness:
  "\<exists>res. estimate_cost_handler demo_app_lib demo_estimator None \<lparr>ecq_app_id = ''ab'', ecq_inputs = Some [1]\<rparr>
       (GrpcService_new demo_cfg (q_db demo_queue) Map.empty) = Ret (Inr res) \<and>
     (ecr_err res = None \<and> length (ecr_pv_digest res) = 32 \<or> ecr_cost res = 0)"
proof -
  have "require_app demo_app_lib None ''ab'' (q_db demo_queue) =
      Ret (Inr \<lparr>app_id = ''ab'', program = [], pk = (), vk = [], info = None\<rparr>)"
    by (simp add: require_app_def get_app_def select_app_def with_fault_def App_from_def unwrap_result_def
        demo_queue_def demo_row_def demo_app_lib_def)
  then obtain res where "estimate_cost_handler demo_app_lib demo_estimator None \<lparr>ecq_app_id = ''ab'', ecq_inputs = Some [1]\<rparr>
       (GrpcService_new demo_cfg (q_db demo_queue) Map.empty) = Ret (Inr res)"
    by (simp add: estimate_cost_handler_def GrpcService_new_def)
  with estimate_response [OF this] show ?thesis by blast
qed

end
