(* ===== verification/Server.thy ===== *)
theory Server
  imports Grpc
begin

text \<open>
  The running server (\<^verbatim>\<open>bin/server.rs\<close> and \<^verbatim>\<open>GrpcService::run\<close>): requests that pass the
  authentication layer and the proving queue run concurrently on the shared database, map of
  outputs and task channel. The step relation \<open>server_step\<close> interleaves them at the points where
  the code awaits: a registration between its check and its insertion, a proving request between
  its lookup and its send, a result request between memory and database, the queue between its
  two stores. A request that ends with an error changes nothing and has no step of its own; a
  request whose handler panics, or whose client goes away, stops at its current point. What
  \<^verbatim>\<open>proving::prove_task\<close> may return for a task is the relation \<open>proves\<close>. The receiver of the task
  channel is held by \<^verbatim>\<open>main\<close>, so sending always succeeds, also after the queue's loop has ended.
\<close>

section \<open>Requests and state\<close>

text \<open>
  The layers in front of the handlers, \<^verbatim>\<open>InterceptedService\<close> around \<^verbatim>\<open>ProverNetworkServer\<close>: the
  interceptor sees the request first, then a message longer than \<^verbatim>\<open>max_grpc_msg_size\<close> is not
  decoded. The encoded length of a message is the parameter \<open>len\<close>.
\<close>

definition admitted ::
  "(string \<Rightarrow> 'v option) \<Rightarrow> (rpc \<Rightarrow> nat) \<Rightarrow> ServiceConfig \<Rightarrow> ('v, rpc) tonic_request \<Rightarrow> rpc option" where
  "admitted parse len c req =
     (case server_auth_interceptor parse c req of
        Inl _ \<Rightarrow> None
      | Inr r \<Rightarrow> if len (req_inner r) \<le> unat (max_grpc_msg_size c) then Some (req_inner r) else None)"

datatype ('g, 'pk, 'vk) queue_phase =
    Receiving
  | Working "('g, 'pk, 'vk) proving_task" \<comment> \<open>in \<^verbatim>\<open>prove_task\<close>\<close>
  | Saving proving_key bytes \<comment> \<open>stored in memory, not yet in the database\<close>
  | Ended "('g, 'pk, 'vk) proving_task" \<comment> \<open>unwound by a panic in \<^verbatim>\<open>prove_task\<close>\<close>

record ('g, 'pk, 'vk) server =
  svc :: "('g, 'pk, 'vk) service"
  phase :: "('g, 'pk, 'vk) queue_phase"
  registering :: "('g, 'pk, 'vk) App list" \<comment> \<open>registrations that passed the check\<close>
  sending :: "('g, 'pk, 'vk) proving_task list" \<comment> \<open>proving requests that found their app\<close>
  reading :: "proving_key list" \<comment> \<open>result requests that found nothing in memory\<close>
  accepted :: "('g, 'pk, 'vk) proving_task list" \<comment> \<open>history: tasks sent to the queue\<close>
  finished :: "(('g, 'pk, 'vk) proving_task \<times> (string + bytes)) list" \<comment> \<open>history: what \<^verbatim>\<open>prove_task\<close> returned\<close>
  answers :: "(proving_key \<times> bytes option) list" \<comment> \<open>history: answered result requests\<close>

definition server_start :: "ServiceConfig \<Rightarrow> database \<Rightarrow> ('g, 'pk, 'vk) server" where
  "server_start c db =
     \<lparr>svc = GrpcService_new c db Map.empty, phase = Receiving, registering = [], sending = [], reading = [],
      accepted = [], finished = [], answers = []\<rparr>"

text \<open>
  \<^verbatim>\<open>main\<close>: the thread pool, then the database, then queue and service on the shared state. The
  configuration is not validated.
\<close>

definition server_main ::
  "string + unit \<Rightarrow> (string \<Rightarrow> string + database) \<Rightarrow> ServiceConfig \<Rightarrow> (string + ('g, 'pk, 'vk) server) outcome" where
  "server_main pool connect c =
     (case pool of
        Inl _ \<Rightarrow> Panic ''failed to build global Rayon thread pool''
      | Inr _ \<Rightarrow> (case connect (db_url c) of Inl e \<Rightarrow> Ret (Inl e) | Inr db \<Rightarrow> Ret (Inr (server_start c db))))"

abbreviation server_db :: "('g, 'pk, 'vk) server \<Rightarrow> database" where
  "server_db s \<equiv> db_of (svc s)"

abbreviation server_outputs :: "('g, 'pk, 'vk) server \<Rightarrow> proving_outputs" where
  "server_outputs s \<equiv> outputs (sv (svc s))"

definition set_db :: "database \<Rightarrow> ('g, 'pk, 'vk) server \<Rightarrow> ('g, 'pk, 'vk) server" where
  "set_db db s = s\<lparr>svc := (svc s)\<lparr>sv := (sv (svc s))\<lparr>q_db := db\<rparr>\<rparr>\<rparr>"

definition set_outputs :: "proving_outputs \<Rightarrow> ('g, 'pk, 'vk) server \<Rightarrow> ('g, 'pk, 'vk) server" where
  "set_outputs m s = s\<lparr>svc := (svc s)\<lparr>sv := (sv (svc s))\<lparr>outputs := m\<rparr>\<rparr>\<rparr>"

definition set_sent :: "('g, 'pk, 'vk) proving_task list \<Rightarrow> ('g, 'pk, 'vk) server \<Rightarrow> ('g, 'pk, 'vk) server" where
  "set_sent ts s = s\<lparr>svc := (svc s)\<lparr>sent := ts\<rparr>\<rparr>"

lemmas server_set_defs = set_db_def set_outputs_def set_sent_def

section \<open>Steps\<close>

inductive server_step ::
  "(string \<Rightarrow> 'v option) \<Rightarrow> (rpc \<Rightarrow> nat) \<Rightarrow> ('g, 'pk, 'vk) app_lib \<Rightarrow> bool \<Rightarrow>
     (('g, 'pk, 'vk) proving_task \<Rightarrow> (string + bytes) outcome \<Rightarrow> bool) \<Rightarrow>
     ('g, 'pk, 'vk) server \<Rightarrow> ('g, 'pk, 'vk) server \<Rightarrow> bool"
  for parse len lib fk proves where
  register_check:
    "admitted parse len (cfg (svc s)) req = Some (CallRegisterApp q) \<Longrightarrow> App_new lib (rar_elf q) (rar_info q) = Ret app \<Longrightarrow>
     get_app lib None (app_id app) (server_db s) = Ret (Inr None) \<Longrightarrow>
     server_step parse len lib fk proves s (s\<lparr>registering := registering s @ [app]\<rparr>)"
| register_insert:
    "registering s = xs @ app # ys \<Longrightarrow> set_app_insert lib fault app (server_db s) = Ret (r, db) \<Longrightarrow>
     server_step parse len lib fk proves s (set_db db (s\<lparr>registering := xs @ ys\<rparr>))"
| register_stop:
    "registering s = xs @ app # ys \<Longrightarrow> server_step parse len lib fk proves s (s\<lparr>registering := xs @ ys\<rparr>)"
| prove_lookup:
    "admitted parse len (cfg (svc s)) req = Some (CallProveTask q) \<Longrightarrow>
     require_app lib None (ptq_app_id q) (server_db s) = Ret (Inr app) \<Longrightarrow>
     server_step parse len lib fk proves s (s\<lparr>sending := sending s @ [task_for q app]\<rparr>)"
| prove_send:
    "sending s = xs @ task # ys \<Longrightarrow>
     server_step parse len lib fk proves s
       (set_sent (sent (svc s) @ [task]) (s\<lparr>sending := xs @ ys, accepted := accepted s @ [task]\<rparr>))"
| prove_stop:
    "sending s = xs @ task # ys \<Longrightarrow> server_step parse len lib fk proves s (s\<lparr>sending := xs @ ys\<rparr>)"
| result_memory:
    "admitted parse len (cfg (svc s)) req = Some (CallGetProvingResult q) \<Longrightarrow> key = ProvingKey_new (gpq_app_id q) (gpq_task_id q) \<Longrightarrow>
     pop_output key (server_outputs s) = (Some out, m) \<Longrightarrow>
     server_step parse len lib fk proves s (set_outputs m (s\<lparr>answers := answers s @ [(key, Some (output_proof out))]\<rparr>))"
| result_miss:
    "admitted parse len (cfg (svc s)) req = Some (CallGetProvingResult q) \<Longrightarrow> key = ProvingKey_new (gpq_app_id q) (gpq_task_id q) \<Longrightarrow>
     pop_output key (server_outputs s) = (None, m) \<Longrightarrow>
     server_step parse len lib fk proves s (set_outputs m (s\<lparr>reading := reading s @ [key]\<rparr>))"
| result_db:
    "reading s = xs @ key # ys \<Longrightarrow> select_proof None key (server_db s) = Inr row \<Longrightarrow>
     server_step parse len lib fk proves s
       (s\<lparr>reading := xs @ ys, answers := answers s @ [(key, Option.bind row (\<lambda>column. column))]\<rparr>)"
| result_stop:
    "reading s = xs @ key # ys \<Longrightarrow> server_step parse len lib fk proves s (s\<lparr>reading := xs @ ys\<rparr>)"
| queue_receive:
    "phase s = Receiving \<Longrightarrow> sent (svc s) = task # ts \<Longrightarrow>
     server_step parse len lib fk proves s (set_sent ts (s\<lparr>phase := Working task\<rparr>))"
| queue_proved:
    "phase s = Working task \<Longrightarrow> proves task (Ret (Inr bs)) \<Longrightarrow>
     server_step parse len lib fk proves s
       (set_outputs ((server_outputs s)(task_key task \<mapsto> \<lparr>output_proof = bs\<rparr>))
         (s\<lparr>phase := Saving (task_key task) bs, finished := finished s @ [(task, Inr bs)]\<rparr>))"
| queue_failed:
    "phase s = Working task \<Longrightarrow> proves task (Ret (Inl e)) \<Longrightarrow>
     server_step parse len lib fk proves s (s\<lparr>phase := Receiving, finished := finished s @ [(task, Inl e)]\<rparr>)"
| queue_panic:
    "phase s = Working task \<Longrightarrow> proves task (Panic m) \<Longrightarrow>
     server_step parse len lib fk proves s (s\<lparr>phase := Ended task\<rparr>)"
| queue_saved:
    "phase s = Saving key bs \<Longrightarrow>
     server_step parse len lib fk proves s
       (set_db (case store_proof_in_db fk fault key bs (server_db s) of Inl _ \<Rightarrow> server_db s | Inr db \<Rightarrow> db)
         (s\<lparr>phase := Receiving\<rparr>))"

abbreviation server_steps where
  "server_steps parse len lib fk proves \<equiv> (server_step parse len lib fk proves)\<^sup>*\<^sup>*"

section \<open>What the steps do to the stores\<close>

lemma set_app_insert_cases:
  assumes "set_app_insert lib fault app db = Ret (r, db')"
  obtains (refused) "db' = db"
  | (inserted) row where "AppRow_from lib app = Ret row" "insert_app fault row db = Inr db'" "row_app_id row = app_id app"
proof -
  from assms obtain row where row: "AppRow_from lib app = Ret row"
    and k: "(case insert_app fault row db of Inl e \<Rightarrow> Ret (Inl e, db) | Inr db' \<Rightarrow> Ret (Inr app, db')) = Ret (r, db')"
    unfolding set_app_insert_def bind_outcome_eq_Ret by (elim exE conjE) (rule that)
  from row have "row_app_id row = app_id app" by (auto simp: AppRow_from_def outcome_simps)
  with row k refused inserted show ?thesis by (cases "insert_app fault row db") auto
qed

lemma set_app_insert_rows:
  assumes "set_app_insert lib fault app db = Ret (r, db')" and "apps db a = Some row"
  shows "apps db' a = Some row"
  using assms(1)
proof (cases rule: set_app_insert_cases)
  case (inserted row')
  then show ?thesis using app_table.store_keeps [of row' "app_id app" fault db db' a row] assms(2) by simp
qed (use assms(2) in simp)

lemma set_app_insert_proofs: "set_app_insert lib fault app db = Ret (r, db') \<Longrightarrow> proofs db' = proofs db"
  by (erule set_app_insert_cases) (auto simp: insert_app_def with_fault_def split: option.splits if_splits)

lemma store_in_db_cases:
  obtains (failed) e where "store_proof_in_db fk fault key bs db = Inl e"
  | (stored) db' where "store_proof_in_db fk fault key bs db = Inr db'" "apps db' = apps db"
      "\<And>k. proofs db' k = (if k = key then Some (Some bs) else proofs db k)"
proof (cases "store_proof_in_db fk fault key bs db")
  case (Inr db')
  then have r: "replace_proof fk fault key (the (Some bs)) db = Inr db'" by (simp add: store_proof_in_db_def)
  then have "apps db' = apps db" by (auto simp: replace_proof_def with_fault_def split: option.splits if_splits)
  moreover have "proofs db' k = (if k = key then Some (Some bs) else proofs db k)" for k
    using proof_table.lookup_after [OF _ r] by simp
  ultimately show ?thesis using Inr by (intro stored)
qed (rule failed)

lemma require_app_Ret:
  assumes "require_app lib fault a db = Ret (Inr app)"
  shows "get_app lib fault a db = Ret (Inr (Some app))"
proof -
  from assms obtain r where r: "get_app lib fault a db = Ret r"
    and k: "(case r of Inl e \<Rightarrow> Ret (Inl (internal (''failed to get app: '' @ e)))
       | Inr None \<Rightarrow> Ret (Inl (not_found (''cannot find app '' @ a)))
       | Inr (Some app) \<Rightarrow> Ret (Inr app)) = Ret (Inr app)"
    unfolding require_app_def bind_outcome_eq_Ret by (elim exE conjE) (rule that)
  show ?thesis
  proof (cases r)
    case (Inr o')
    with r k show ?thesis by (cases o') auto
  qed (use k in simp)
qed

section \<open>The invariant\<close>

text \<open>Every row of the table belongs to an app that was compiled from some ELF file.\<close>

definition rows_genuine :: "('g, 'pk, 'vk) app_lib \<Rightarrow> database \<Rightarrow> bool" where
  "rows_genuine lib db \<longleftrightarrow> (\<forall>a row. apps db a = Some row \<longrightarrow>
     (\<exists>elf i app. App_new lib elf i = Ret app \<and> app_id app = a \<and> AppRow_from lib app = Ret row))"

text \<open>A task carries the program and the keys of the app that its key names.\<close>

definition task_genuine :: "('g, 'pk, 'vk) app_lib \<Rightarrow> ('g, 'pk, 'vk) proving_task \<Rightarrow> bool" where
  "task_genuine lib task \<longleftrightarrow> (\<exists>elf i app. App_new lib elf i = Ret app \<and>
     app_id app = strip_0x (key_app_id (task_key task)) \<and>
     task_program task = program app \<and> task_pk task = pk app \<and> task_vk task = vk app)"

fun phase_tasks :: "('g, 'pk, 'vk) queue_phase \<Rightarrow> ('g, 'pk, 'vk) proving_task list" where
  "phase_tasks (Working task) = [task]"
| "phase_tasks (Ended task) = [task]"
| "phase_tasks _ = []"

definition apps_inv :: "('g, 'pk, 'vk) app_lib \<Rightarrow> ('g, 'pk, 'vk) server \<Rightarrow> bool" where
  "apps_inv lib s \<longleftrightarrow> rows_genuine lib (server_db s) \<and> (\<forall>app \<in> set (registering s). \<exists>elf i. App_new lib elf i = Ret app)"

definition tasks_inv :: "('g, 'pk, 'vk) app_lib \<Rightarrow> ('g, 'pk, 'vk) server \<Rightarrow> bool" where
  "tasks_inv lib s \<longleftrightarrow> (\<forall>task \<in> set (sending s) \<union> set (accepted s). task_genuine lib task)"

definition order_inv :: "('g, 'pk, 'vk) server \<Rightarrow> bool" where
  "order_inv s \<longleftrightarrow> accepted s = map fst (finished s) @ phase_tasks (phase s) @ sent (svc s)"

text \<open>The proofs in the system under their keys, and the proofs that were returned for tasks.\<close>

definition evidence :: "('g, 'pk, 'vk) server \<Rightarrow> (proving_key \<times> bytes) set" where
  "evidence s = {(key, bs). server_outputs s key = Some \<lparr>output_proof = bs\<rparr> \<or> proofs (server_db s) key = Some (Some bs) \<or>
     phase s = Saving key bs \<or> (key, Some bs) \<in> set (answers s)}"

definition proved_pairs :: "('g, 'pk, 'vk) server \<Rightarrow> (proving_key \<times> bytes) set" where
  "proved_pairs s = {(key, bs). \<exists>task. (task, Inr bs) \<in> set (finished s) \<and> task_key task = key}"

lemma rows_genuine_insert:
  assumes "rows_genuine lib db" and "App_new lib elf i = Ret app" and "set_app_insert lib fault app db = Ret (r, db')"
  shows "rows_genuine lib db'"
  using assms(3)
proof (cases rule: set_app_insert_cases)
  case refused
  with assms(1) show ?thesis by simp
next
  case (inserted row)
  then have "apps db' a = (if a = app_id app then Some row else apps db a)" for a
    using app_table.lookup_after [of row "app_id app" fault db db'] by simp
  with assms(1,2) inserted(1) show ?thesis by (auto simp: rows_genuine_def)
qed

lemma require_app_genuine:
  assumes "codec_conforms lib" and "rows_genuine lib db" and "require_app lib fault (ptq_app_id q) db = Ret (Inr app)"
  shows "task_genuine lib (task_for q app)"
proof -
  have "get_app lib fault (ptq_app_id q) db = Ret (Inr (Some app))" using assms(3) by (rule require_app_Ret)
  then obtain row where row: "apps db (strip_0x (ptq_app_id q)) = Some row" "App_from lib row = Ret app"
    by (auto simp: get_app_def select_app_def with_fault_def outcome_simps split: sum.splits option.splits)
  with assms(2) obtain elf i app' where a: "App_new lib elf i = Ret app'" "app_id app' = strip_0x (ptq_app_id q)"
    "AppRow_from lib app' = Ret row" unfolding rows_genuine_def by blast
  have "app' = app" using App_row_roundtrip [OF assms(1) a(3)] row(2) by simp
  with a show ?thesis unfolding task_genuine_def by (auto simp: task_for_def ProvingKey_new_def Let_def)
qed

lemma server_apps_inv: "server_step parse len lib fk proves s s' \<Longrightarrow> apps_inv lib s \<Longrightarrow> apps_inv lib s'"
proof (induction rule: server_step.induct)
  case (register_insert s xs app ys fault r db)
  then obtain elf i where "App_new lib elf i = Ret app" by (auto simp: apps_inv_def)
  with register_insert show ?case
    using rows_genuine_insert [of lib "server_db s"] by (auto simp: apps_inv_def server_set_defs)
next
  case (queue_saved s key bs fault)
  then show ?case
    by (cases rule: store_in_db_cases [of fk fault key bs "server_db s"])
      (auto simp: apps_inv_def rows_genuine_def server_set_defs)
qed (auto simp: apps_inv_def server_set_defs)

lemma server_tasks_inv:
  assumes "codec_conforms lib"
  shows "server_step parse len lib fk proves s s' \<Longrightarrow> apps_inv lib s \<Longrightarrow> tasks_inv lib s \<Longrightarrow> tasks_inv lib s'"
proof (induction rule: server_step.induct)
  case (prove_lookup s req q app)
  then show ?case using require_app_genuine [OF assms, of "server_db s" None q app]
    by (auto simp: apps_inv_def tasks_inv_def)
qed (auto simp: tasks_inv_def server_set_defs)

lemma server_order_inv: "server_step parse len lib fk proves s s' \<Longrightarrow> order_inv s \<Longrightarrow> order_inv s'"
  by (induction rule: server_step.induct) (auto simp: order_inv_def server_set_defs)

lemma proved_pairs_grow: "server_step parse len lib fk proves s s' \<Longrightarrow> proved_pairs s \<subseteq> proved_pairs s'"
  by (induction rule: server_step.induct) (auto simp: proved_pairs_def server_set_defs)

text \<open>A step makes no proof up: what it adds to the stores and answers was there or was just proved.\<close>

lemma evidence_step: "server_step parse len lib fk proves s s' \<Longrightarrow> evidence s' \<subseteq> evidence s \<union> proved_pairs s'"
proof (induction rule: server_step.induct)
  case (register_insert s xs app ys fault r db)
  then show ?case using set_app_insert_proofs [of lib fault app "server_db s" r db]
    by (auto simp: evidence_def server_set_defs)
next
  case (result_memory s req q key out m)
  then have m: "server_outputs s key = Some \<lparr>output_proof = output_proof out\<rparr>" "m = (server_outputs s)(key := None)"
    by (auto simp: pop_output_def)
  then show ?case by (auto simp: evidence_def server_set_defs split: if_splits)
next
  case (result_miss s req q key m)
  then have "m = (server_outputs s)(key := None)" by (auto simp: pop_output_def)
  then show ?case by (auto simp: evidence_def server_set_defs split: if_splits)
next
  case (result_db s xs key ys row)
  then have "row = proofs (server_db s) key" by (simp add: select_proof_def with_fault_def)
  then have "proofs (server_db s) key = Some (Some b)" if "Option.bind row (\<lambda>column. column) = Some b" for b
    using that by (simp add: bind_eq_Some_conv)
  then show ?case by (auto simp: evidence_def eq_commute [of "Some _" "Option.bind _ _"])
next
  case (queue_proved s task bs)
  then show ?case by (auto simp: evidence_def proved_pairs_def server_set_defs split: if_splits)
next
  case (queue_saved s key bs fault)
  then show ?case
    by (cases rule: store_in_db_cases [of fk fault key bs "server_db s"])
      (auto simp: evidence_def server_set_defs split: if_splits)
qed (auto simp: evidence_def server_set_defs)

lemma finished_step:
  "server_step parse len lib fk proves s s' \<Longrightarrow> (task, r) \<in> set (finished s') \<Longrightarrow>
     (task, r) \<in> set (finished s) \<or> proves task (Ret r)"
  by (induction rule: server_step.induct) (auto simp: server_set_defs)

section \<open>Reachable states\<close>

definition server_inv ::
  "('g, 'pk, 'vk) app_lib \<Rightarrow> (('g, 'pk, 'vk) proving_task \<Rightarrow> (string + bytes) outcome \<Rightarrow> bool) \<Rightarrow> database \<Rightarrow>
     ('g, 'pk, 'vk) server \<Rightarrow> bool" where
  "server_inv lib proves db0 s \<longleftrightarrow> apps_inv lib s \<and> tasks_inv lib s \<and> order_inv s \<and>
     evidence s \<subseteq> proved_pairs s \<union> {(key, bs). proofs db0 key = Some (Some bs)} \<and>
     (\<forall>task r. (task, r) \<in> set (finished s) \<longrightarrow> proves task (Ret r))"

lemma server_inv_start: "rows_genuine lib db \<Longrightarrow> server_inv lib proves db (server_start c db)"
  by (simp add: server_inv_def server_start_def GrpcService_new_def apps_inv_def tasks_inv_def order_inv_def evidence_def)

lemma server_inv_step:
  assumes "codec_conforms lib" and "server_step parse len lib fk proves s s'" and "server_inv lib proves db0 s"
  shows "server_inv lib proves db0 s'"
proof -
  have "evidence s' \<subseteq> proved_pairs s' \<union> {(key, bs). proofs db0 key = Some (Some bs)}"
    using evidence_step [OF assms(2)] proved_pairs_grow [OF assms(2)] assms(3) by (auto simp: server_inv_def)
  moreover have "\<forall>task r. (task, r) \<in> set (finished s') \<longrightarrow> proves task (Ret r)"
    using finished_step [OF assms(2)] assms(3) unfolding server_inv_def by blast
  ultimately show ?thesis
    using server_apps_inv [OF assms(2)] server_tasks_inv [OF assms(1,2)] server_order_inv [OF assms(2)] assms(3)
    by (simp add: server_inv_def)
qed

lemma server_reach_inv:
  assumes "codec_conforms lib" and "rows_genuine lib db"
    and "server_steps parse len lib fk proves (server_start c db) s"
  shows "server_inv lib proves db s"
  using assms(3) by (induction rule: rtranclp_induct) (auto intro: server_inv_start server_inv_step assms(1,2))

text \<open>
  Every proof a client ever receives was in the database when the server started, or was returned
  for an accepted task with exactly that key, whose program and keys are those of its app.
\<close>

lemma evidence_proved:
  assumes inv: "server_inv lib proves db s" and "(key, bs) \<in> evidence s"
  shows "proofs db key = Some (Some bs) \<or>
    (\<exists>task \<in> set (accepted s). task_key task = key \<and> proves task (Ret (Inr bs)) \<and> task_genuine lib task)"
proof -
  from assms have "(key, bs) \<in> proved_pairs s \<or> proofs db key = Some (Some bs)" by (auto simp: server_inv_def)
  then show ?thesis
  proof
    assume "(key, bs) \<in> proved_pairs s"
    then obtain task where t: "(task, Inr bs) \<in> set (finished s)" "task_key task = key" by (auto simp: proved_pairs_def)
    then have "task \<in> set (map fst (finished s))" by force
    with inv have "task \<in> set (accepted s)" "task_genuine lib task"
      by (auto simp: server_inv_def order_inv_def tasks_inv_def)
    with t inv show ?thesis unfolding server_inv_def by blast
  qed simp
qed

lemma reach_order:
  assumes "server_steps parse len lib fk proves (server_start c db) s"
  shows "order_inv s"
  using assms
proof (induction rule: rtranclp_induct)
  case base
  show ?case by (simp add: order_inv_def server_start_def GrpcService_new_def)
qed (rule server_order_inv)

lemma reach_finished:
  assumes "server_steps parse len lib fk proves (server_start c db) s" and "(task, r) \<in> set (finished s)"
  shows "proves task (Ret r)"
  using assms by (induction rule: rtranclp_induct) (auto simp: server_start_def dest: finished_step)

section \<open>What stays\<close>

lemma server_apps_grow: "server_step parse len lib fk proves s s' \<Longrightarrow> apps (server_db s) \<subseteq>\<^sub>m apps (server_db s')"
proof (induction rule: server_step.induct)
  case (register_insert s xs app ys fault r db)
  then show ?case using set_app_insert_rows [of lib fault app "server_db s" r db]
    by (auto simp: map_le_def server_set_defs)
next
  case (queue_saved s key bs fault)
  then show ?case
    by (cases rule: store_in_db_cases [of fk fault key bs "server_db s"]) (auto simp: server_set_defs)
qed (simp_all add: server_set_defs)

definition durable :: "proving_key \<Rightarrow> ('g, 'pk, 'vk) server \<Rightarrow> bool" where
  "durable key s \<longleftrightarrow> (\<exists>bs. proofs (server_db s) key = Some (Some bs))"

lemma durable_step:
  "server_step parse len lib fk proves s s' \<Longrightarrow> durable key s \<Longrightarrow>
     durable key s' \<and> (\<exists>new. answers s' = answers s @ new \<and> (key, None) \<notin> set new)"
proof (induction rule: server_step.induct)
  case (register_insert s xs app ys fault r db)
  then show ?case using set_app_insert_proofs [of lib fault app "server_db s" r db]
    by (auto simp: durable_def server_set_defs)
next
  case (queue_saved s k bs fault)
  then show ?case
    by (cases rule: store_in_db_cases [of fk fault k bs "server_db s"]) (auto simp: durable_def server_set_defs)
qed (auto simp: durable_def select_proof_def with_fault_def server_set_defs)

lemma apps_steps: "server_steps parse len lib fk proves s s' \<Longrightarrow> apps (server_db s) \<subseteq>\<^sub>m apps (server_db s')"
  by (induction rule: rtranclp_induct) (auto intro: map_le_trans server_apps_grow)

lemma durable_steps:
  assumes "server_steps parse len lib fk proves s s'" and "durable key s"
  shows "durable key s' \<and> (\<exists>new. answers s' = answers s @ new \<and> (key, None) \<notin> set new)"
  using assms(1)
proof (induction rule: rtranclp_induct)
  case (step s1 s2)
  then show ?case using durable_step [OF step.hyps(2), of key] by fastforce
qed (use assms(2) in simp)

section \<open>Uninterrupted handlers\<close>

lemma register_app_state:
  assumes "register_app lib f1 f2 between q s = Ret (res, s1)"
  obtains r db where "set_app lib f1 f2 between (rar_elf q) (rar_info q) (db_of s) = Ret (r, db)"
    "s1 = s\<lparr>sv := (sv s)\<lparr>q_db := db\<rparr>\<rparr>"
proof -
  obtain y where y: "set_app lib f1 f2 between (rar_elf q) (rar_info q) (db_of s) = Ret y"
    and k: "(case y of (r, db) \<Rightarrow> case r of
            Inl e \<Rightarrow> Ret (Inl (internal (''failed to register app: '' @ e)), s\<lparr>sv := (sv s)\<lparr>q_db := db\<rparr>\<rparr>)
          | Inr app \<Rightarrow> Ret (Inr \<lparr>rares_err = None, rares_app_id = app_id app\<rparr>, s\<lparr>sv := (sv s)\<lparr>q_db := db\<rparr>\<rparr>)) =
      Ret (res, s1)"
    using assms unfolding register_app_def bind_outcome_eq_Ret Let_def by (elim exE conjE) (rule that)
  obtain r db where "y = (r, db)" by (cases y)
  with y k that show ?thesis by (cases r) auto
qed

lemma register_run:
  assumes "admitted parse len (cfg (svc s)) req = Some (CallRegisterApp q)"
    and "register_app lib None f2 (\<lambda>db. db) q (svc s) = Ret (res, s1)"
  shows "server_steps parse len lib fk proves s (s\<lparr>svc := s1\<rparr>)"
proof -
  obtain r db where r: "set_app lib None f2 (\<lambda>db. db) (rar_elf q) (rar_info q) (server_db s) = Ret (r, db)"
    and s1: "s1 = (svc s)\<lparr>sv := (sv (svc s))\<lparr>q_db := db\<rparr>\<rparr>"
    using assms(2) by (rule register_app_state)
  obtain app x where app: "App_new lib (rar_elf q) (rar_info q) = Ret app" "get_app lib None (app_id app) (server_db s) = Ret x"
    and k: "(case x of
           Inl e \<Rightarrow> Ret (Inl e, server_db s)
         | Inr (Some _) \<Rightarrow> Ret (Inl (''app already exists '' @ app_id app), server_db s)
         | Inr None \<Rightarrow> set_app_insert lib f2 app (server_db s)) = Ret (r, db)"
    using r by (rule set_app_unfold)
  show ?thesis
  proof (cases "x = Inr None")
    case True
    let ?s = "s\<lparr>registering := registering s @ [app]\<rparr>"
    have "server_step parse len lib fk proves s ?s" using assms(1) app True by (intro register_check) simp_all
    moreover have "server_step parse len lib fk proves ?s (set_db db (?s\<lparr>registering := registering s @ []\<rparr>))"
      using k True by (intro register_insert [of ?s "registering s" app "[]" lib f2 r]) simp_all
    ultimately show ?thesis by (simp add: s1 set_db_def)
  next
    case False
    with k have "db = server_db s" by (auto split: sum.splits option.splits)
    with s1 show ?thesis by simp
  qed
qed

lemma prove_run:
  assumes "admitted parse len (cfg (svc s)) req = Some (CallProveTask q)"
    and "require_app lib None (ptq_app_id q) (server_db s) = Ret (Inr app)"
  shows "server_steps parse len lib fk proves s
    (s\<lparr>accepted := accepted s @ [task_for q app], svc := (svc s)\<lparr>sent := sent (svc s) @ [task_for q app]\<rparr>\<rparr>)"
proof -
  let ?s = "s\<lparr>sending := sending s @ [task_for q app]\<rparr>"
  have "server_step parse len lib fk proves s ?s" using assms by (rule prove_lookup)
  moreover have "server_step parse len lib fk proves ?s
      (set_sent (sent (svc ?s) @ [task_for q app]) (?s\<lparr>sending := sending s @ [], accepted := accepted ?s @ [task_for q app]\<rparr>))"
    by (intro prove_send) simp
  ultimately show ?thesis by (simp add: set_sent_def)
qed

lemma result_run:
  assumes "admitted parse len (cfg (svc s)) req = Some (CallGetProvingResult q)"
  shows "server_steps parse len lib fk proves s
    (s\<lparr>answers := answers s @ [(ProvingKey_new (gpq_app_id q) (gpq_task_id q),
          fst (fetch_ok (ProvingKey_new (gpq_app_id q) (gpq_task_id q)) (sv (svc s))))],
        svc := snd (get_proving_result None q (svc s))\<rparr>)"
proof (cases "server_outputs s (ProvingKey_new (gpq_app_id q) (gpq_task_id q))")
  case (Some out)
  then have "server_step parse len lib fk proves s
    (set_outputs ((server_outputs s)(ProvingKey_new (gpq_app_id q) (gpq_task_id q) := None))
      (s\<lparr>answers := answers s @ [(ProvingKey_new (gpq_app_id q) (gpq_task_id q), Some (output_proof out))]\<rparr>))"
    by (intro result_memory [OF assms]) (simp_all add: pop_output_def)
  with Some show ?thesis by (simp add: get_proving_result_fetch fetch_ok_eq set_outputs_def r_into_rtranclp)
next
  case None
  let ?k = "ProvingKey_new (gpq_app_id q) (gpq_task_id q)"
  let ?s = "set_outputs ((server_outputs s)(?k := None)) (s\<lparr>reading := reading s @ [?k]\<rparr>)"
  let ?t = "?s\<lparr>reading := reading s @ [], answers := answers ?s @ [(?k, Option.bind (proofs (server_db ?s) ?k) (\<lambda>column. column))]\<rparr>"
  have "server_step parse len lib fk proves s ?s" using None by (intro result_miss [OF assms]) (simp_all add: pop_output_def)
  moreover have "server_step parse len lib fk proves ?s ?t"
    by (intro result_db) (simp_all add: set_outputs_def select_proof_def with_fault_def)
  ultimately have steps: "server_steps parse len lib fk proves s ?t" by (rule converse_rtranclp_into_rtranclp [OF _ r_into_rtranclp])
  have eq: "?t = s\<lparr>answers := answers s @ [(?k, fst (fetch_ok ?k (sv (svc s))))], svc := snd (get_proving_result None q (svc s))\<rparr>"
    using None by (simp add: get_proving_result_fetch fetch_ok_eq set_outputs_def)
  show ?thesis using steps unfolding eq .
qed

section \<open>A run\<close>

text \<open>A library with one program, for witnesses, and its client.\<close>

definition unit_app_lib :: "(unit, unit, unit) app_lib" where
  "unit_app_lib = \<lparr>al_compile = (\<lambda>elf. Ret ()), al_vk_enabled = False, al_get_mut = Some, al_pad = Inr,
     al_setup_keys = (\<lambda>g. ((), ())), al_hash_str = (\<lambda>vk. ''0x'' @ replicate 64 (CHR ''0'')),
     al_ser_program = (\<lambda>g. Inr []), al_ser_pk = (\<lambda>k. Inr []), al_ser_vk = (\<lambda>k. Inr []),
     al_de_program = (\<lambda>bs. Inr ()), al_de_pk = (\<lambda>bs. Inr ()), al_de_vk = (\<lambda>bs. Inr ())\<rparr>"

definition unit_app :: "(unit, unit, unit) App" where
  "unit_app = \<lparr>app_id = replicate 64 (CHR ''0''), program = (), pk = (), vk = (), info = None\<rparr>"

definition unit_db :: database where
  "unit_db = \<lparr>apps = [replicate 64 (CHR ''0'') \<mapsto>
     \<lparr>row_app_id = replicate 64 (CHR ''0''), row_program = [], row_pk = [], row_vk = [], row_info = None\<rparr>],
     proofs = Map.empty\<rparr>"

definition unit_key :: proving_key where
  "unit_key = ProvingKey_new (replicate 64 (CHR ''0'')) ''task''"

definition unit_task :: "(unit, unit, unit) proving_task" where
  "unit_task = \<lparr>task_key = unit_key, task_program = (), task_pk = (), task_vk = (), task_inputs = None, use_gpu = False\<rparr>"

definition unit_request :: ProveTaskRequest where
  "unit_request =
     \<lparr>ptq_app_id = replicate 64 (CHR ''0''), ptq_task_id = ''task'', ptq_inputs = None, ptq_use_gpu = None\<rparr>"

definition unit_result_request :: GetProvingResultRequest where
  "unit_result_request = \<lparr>gpq_app_id = replicate 64 (CHR ''0''), gpq_task_id = ''task''\<rparr>"

definition demo_call :: "rpc \<Rightarrow> (string, rpc) tonic_request" where
  "demo_call c = \<lparr>req_metadata = [''authorization'' \<mapsto> ''Bearer secret''], req_inner = c\<rparr>"

definition demo_service :: "proving_outputs \<Rightarrow> database \<Rightarrow> (unit, unit, unit) proving_task list \<Rightarrow> (unit, unit, unit) service" where
  "demo_service m db ts = \<lparr>cfg = demo_cfg, sv = \<lparr>outputs = m, q_db = db\<rparr>, sent = ts\<rparr>"

lemma demo_admitted: "admitted Some (\<lambda>q. 0) demo_cfg (demo_call c) = Some c"
  by (simp add: admitted_def server_auth_interceptor_def bearer_header_def demo_cfg_def demo_call_def)

lemma unit_app_lib_conforms: "codec_conforms unit_app_lib" "rows_genuine unit_app_lib empty_db"
  by (simp_all add: codec_conforms_def unit_app_lib_def rows_genuine_def empty_db_def)

lemma unit_registers:
  "register_app unit_app_lib None None (\<lambda>db. db) \<lparr>rar_elf = [], rar_info = None\<rparr> (demo_service Map.empty empty_db []) =
     Ret (Inr \<lparr>rares_err = None, rares_app_id = replicate 64 (CHR ''0'')\<rparr>, demo_service Map.empty unit_db [])"
  by (simp add: register_app_def set_app_def App_new_def AppRow_from_def get_app_def select_app_def with_fault_def
      set_app_insert_def insert_app_def unwrap_result_def unit_app_lib_def empty_db_def unit_db_def demo_service_def
      Let_def)

lemma unit_strip: "strip_0x (replicate 64 (CHR ''0'')) = replicate 64 (CHR ''0'')"
  by (simp add: numeral_eq_Suc)

lemma unit_found: "require_app unit_app_lib None (ptq_app_id unit_request) unit_db = Ret (Inr unit_app)"
  by (simp add: unit_request_def require_app_def get_app_def unit_strip select_app_def with_fault_def App_from_def unwrap_result_def
      unit_app_lib_def unit_db_def unit_app_def)

lemma unit_task_for: "task_for unit_request unit_app = unit_task"
  by (simp add: task_for_def unit_request_def unit_task_def unit_key_def unit_app_def)

definition demo_server ::
  "proving_outputs \<Rightarrow> (unit, unit, unit) queue_phase \<Rightarrow> bytes \<Rightarrow> (proving_key \<times> bytes option) list \<Rightarrow> (unit, unit, unit) server" where
  "demo_server m ph bs as = \<lparr>svc = demo_service m unit_db [], phase = ph, registering = [], sending = [], reading = [],
     accepted = [unit_task], finished = [(unit_task, Inr bs)], answers = as\<rparr>"

lemma demo_service_simps [simp]: "cfg (demo_service m db ts) = demo_cfg" "sent (demo_service m db ts) = ts"
  "outputs (sv (demo_service m db ts)) = m" "db_of (demo_service m db ts) = db"
  "demo_service m db ts\<lparr>sent := ts'\<rparr> = demo_service m db ts'"
  "demo_service m db ts\<lparr>sv := sv (demo_service m db ts)\<lparr>outputs := m'\<rparr>\<rparr> = demo_service m' db ts"
  by (simp_all add: demo_service_def)

text \<open>Registration, a proving request, and the queue up to the proof in memory.\<close>

lemma demo_server_working:
  "server_steps Some (\<lambda>q. 0) unit_app_lib True proves (server_start demo_cfg empty_db)
     \<lparr>svc = demo_service Map.empty unit_db [], phase = Working unit_task, registering = [], sending = [], reading = [],
      accepted = [unit_task], finished = [], answers = []\<rparr>"
proof -
  let ?s = "\<lambda>db a ts. \<lparr>svc = demo_service Map.empty db ts, phase = Receiving, registering = [], sending = [], reading = [],
      accepted = a, finished = [], answers = []\<rparr>"
  have "server_steps Some (\<lambda>q. 0) unit_app_lib True proves (?s empty_db [] []) (?s unit_db [] [])"
    using register_run [of Some "\<lambda>q. 0" "?s empty_db [] []" "demo_call (CallRegisterApp \<lparr>rar_elf = [], rar_info = None\<rparr>)"
        "\<lparr>rar_elf = [], rar_info = None\<rparr>" unit_app_lib None _ "demo_service Map.empty unit_db []"]
    by (simp add: demo_admitted unit_registers)
  also have "server_steps Some (\<lambda>q. 0) unit_app_lib True proves (?s unit_db [] []) (?s unit_db [unit_task] [unit_task])"
    using prove_run [of Some "\<lambda>q. 0" "?s unit_db [] []" "demo_call (CallProveTask unit_request)" unit_request unit_app_lib unit_app
        True proves]
    by (simp add: demo_admitted unit_found unit_task_for)
  also have "server_step Some (\<lambda>q. 0) unit_app_lib True proves (?s unit_db [unit_task] [unit_task])
      \<lparr>svc = demo_service Map.empty unit_db [], phase = Working unit_task, registering = [], sending = [], reading = [],
      accepted = [unit_task], finished = [], answers = []\<rparr>"
    using queue_receive [of "?s unit_db [unit_task] [unit_task]" unit_task "[]" Some "\<lambda>q. 0" unit_app_lib True proves]
    by (simp add: set_sent_def)
  finally show ?thesis by (simp add: server_start_def GrpcService_new_def demo_service_def)
qed

lemma demo_server_saving:
  assumes "proves unit_task (Ret (Inr bs))"
  shows "server_steps Some (\<lambda>q. 0) unit_app_lib True proves (server_start demo_cfg empty_db)
    (demo_server [unit_key \<mapsto> \<lparr>output_proof = bs\<rparr>] (Saving unit_key bs) bs [])"
proof -
  let ?w = "\<lparr>svc = demo_service Map.empty unit_db [], phase = Working unit_task, registering = [], sending = [], reading = [],
      accepted = [unit_task], finished = [], answers = []\<rparr>"
  have "server_step Some (\<lambda>q. 0) unit_app_lib True proves ?w
      (demo_server [unit_key \<mapsto> \<lparr>output_proof = bs\<rparr>] (Saving unit_key bs) bs [])"
    using queue_proved [of ?w unit_task proves bs Some "\<lambda>q. 0" unit_app_lib True] assms
    by (simp add: set_outputs_def demo_server_def unit_task_def)
  with demo_server_working show ?thesis by (rule rtranclp.rtrancl_into_rtrancl)
qed

lemma demo_answer:
  "server_steps Some (\<lambda>q. 0) unit_app_lib True proves (demo_server m ph bs as)
     (demo_server (m(unit_key := None)) ph bs (as @ [(unit_key, map_option output_proof (m unit_key))]))"
proof -
  have "ProvingKey_new (gpq_app_id unit_result_request) (gpq_task_id unit_result_request) = unit_key"
    by (simp add: unit_result_request_def unit_key_def)
  moreover have "proofs unit_db = Map.empty" by (simp add: unit_db_def)
  ultimately show ?thesis
    using result_run [of Some "\<lambda>q. 0" "demo_server m ph bs as" "demo_call (CallGetProvingResult unit_result_request)" unit_result_request
        unit_app_lib True proves]
    by (cases "m unit_key") (simp_all add: demo_server_def demo_admitted get_proving_result_fetch fetch_ok_eq)
qed

section \<open>Properties\<close>

text \<open>
  C13. The queue loses, repeats and overtakes nothing: in every reachable state the accepted tasks
  are, in the order they were sent, those whose proving has finished, the one being proved or
  on which the queue ended, and those still in the channel.
\<close>

theorem queue_in_order:
  assumes "server_steps parse len lib fk proves (server_start c db) s"
  shows "accepted s = map fst (finished s) @ phase_tasks (phase s) @ sent (svc s)"
  using reach_order [OF assms] by (simp add: order_inv_def)

theorem queue_in_order_witness:
  "\<exists>s. server_steps Some (\<lambda>q. 0) unit_app_lib True (\<lambda>task r. r = Ret (Inr [7])) (server_start demo_cfg empty_db) s \<and>
     accepted s = [unit_task] \<and> accepted s = map fst (finished s) @ phase_tasks (phase s) @ sent (svc s)"
  using queue_in_order [OF demo_server_saving [of "\<lambda>task r. r = Ret (Inr [7])" "[7]"]]
    demo_server_saving [of "\<lambda>task r. r = Ret (Inr [7])" "[7]"]
  by (intro exI [of _ "demo_server [unit_key \<mapsto> \<lparr>output_proof = [7]\<rparr>] (Saving unit_key [7]) [7] []"]) (simp add: demo_server_def)

text \<open>
  C15. What is stored stays. Whatever happens, registered apps keep their rows, and once a proof
  for a key is in the database, there always is one, and no result request answered from then on
  misses it.
\<close>

theorem stored_stays:
  assumes "server_steps parse len lib fk proves s s'"
  shows "apps (server_db s) \<subseteq>\<^sub>m apps (server_db s') \<and>
    (durable key s \<longrightarrow> durable key s' \<and> (\<exists>new. answers s' = answers s @ new \<and> (key, None) \<notin> set new))"
  using apps_steps [OF assms] durable_steps [OF assms, of key] by blast

theorem stored_stays_witness:
  "\<exists>s'. server_steps Some (\<lambda>q. 0) unit_app_lib True (\<lambda>task r. False)
       (server_start demo_cfg (unit_db\<lparr>proofs := [unit_key \<mapsto> Some [7]]\<rparr>)) s' \<and>
     durable unit_key s' \<and> answers s' \<noteq> [] \<and> (unit_key, None) \<notin> set (answers s')"
proof -
  let ?s = "server_start demo_cfg (unit_db\<lparr>proofs := [unit_key \<mapsto> Some [7]]\<rparr>) :: (unit, unit, unit) server"
  let ?q = unit_result_request
  have "admitted Some (\<lambda>q. 0) (cfg (svc ?s)) (demo_call (CallGetProvingResult ?q)) = Some (CallGetProvingResult ?q)"
    by (simp add: server_start_def GrpcService_new_def demo_admitted)
  from result_run [OF this, of unit_app_lib True "\<lambda>task r. False"]
  obtain s' where s': "server_steps Some (\<lambda>q. 0) unit_app_lib True (\<lambda>task r. False) ?s s'" "answers s' \<noteq> []"
    by (rule that) simp
  moreover have "durable unit_key ?s" by (simp add: durable_def server_start_def GrpcService_new_def)
  ultimately show ?thesis using stored_stays [OF s'(1), of unit_key] by (auto simp: server_start_def)
qed





end
