(* ===== verification/Server_Progress.thy ===== *)
theory Server_Progress
  imports Server
begin

text \<open>
  Infinite histories of the server, and its restarts. A history is a sequence of states in which
  each state follows from the one before by a step, or is the same (nothing happens). The queue
  is treated fairly when it does not stay ready forever without acting: the thread that runs its
  loop is scheduled, and a call of \<^verbatim>\<open>prove_task\<close> that can end does end. A restart keeps the
  database and nothing else.
\<close>

section \<open>Histories\<close>

definition server_trace ::
  "(string \<Rightarrow> 'v option) \<Rightarrow> (rpc \<Rightarrow> nat) \<Rightarrow> ('g, 'pk, 'vk) app_lib \<Rightarrow> bool \<Rightarrow>
     (('g, 'pk, 'vk) proving_task \<Rightarrow> (string + bytes) outcome \<Rightarrow> bool) \<Rightarrow> (nat \<Rightarrow> ('g, 'pk, 'vk) server) \<Rightarrow> bool" where
  "server_trace parse len lib fk proves h \<longleftrightarrow>
     (\<forall>i. h (Suc i) = h i \<or> server_step parse len lib fk proves (h i) (h (Suc i)))"

text \<open>The queue can act: a task waits, \<^verbatim>\<open>prove_task\<close> can end, or a proof is to be stored.\<close>

definition queue_ready ::
  "(('g, 'pk, 'vk) proving_task \<Rightarrow> (string + bytes) outcome \<Rightarrow> bool) \<Rightarrow> ('g, 'pk, 'vk) server \<Rightarrow> bool" where
  "queue_ready proves s =
     (case phase s of
        Receiving \<Rightarrow> sent (svc s) \<noteq> []
      | Working task \<Rightarrow> \<exists>r. proves task r
      | Saving key bs \<Rightarrow> True
      | Ended task \<Rightarrow> False)"

text \<open>Weak fairness. Each step of the queue leaves its phase, and no other step does.\<close>

definition queue_fair ::
  "(('g, 'pk, 'vk) proving_task \<Rightarrow> (string + bytes) outcome \<Rightarrow> bool) \<Rightarrow> (nat \<Rightarrow> ('g, 'pk, 'vk) server) \<Rightarrow> bool" where
  "queue_fair proves h \<longleftrightarrow>
     (\<forall>i. (\<forall>j\<ge>i. queue_ready proves (h j)) \<longrightarrow> (\<exists>j\<ge>i. phase (h (Suc j)) \<noteq> phase (h j)))"

lemma trace_cases:
  assumes "server_trace parse len lib fk proves h"
  obtains "h (Suc i) = h i" | "server_step parse len lib fk proves (h i) (h (Suc i))"
  using assms unfolding server_trace_def by blast

lemma trace_steps: "server_trace parse len lib fk proves h \<Longrightarrow> server_steps parse len lib fk proves (h 0) (h i)"
proof (induction i)
  case (Suc i)
  from Suc.prems show ?case by (cases rule: trace_cases [of _ _ _ _ _ _ i]) (use Suc in auto)
qed simp

text \<open>Every run is the beginning of a history that then rests.\<close>

lemma steps_trace:
  assumes "server_steps parse len lib fk proves s s'"
  shows "\<exists>h n. server_trace parse len lib fk proves h \<and> h 0 = s \<and> (\<forall>i\<ge>n. h i = s')"
  using assms
proof (induction rule: rtranclp_induct)
  case base
  show ?case by (intro exI [of _ "\<lambda>i. s"]) (simp add: server_trace_def)
next
  case (step s1 s2)
  then obtain h n where h: "server_trace parse len lib fk proves h" "h 0 = s" "\<And>i. n \<le> i \<Longrightarrow> h i = s1" by blast
  let ?h = "\<lambda>i. if i \<le> n then h i else s2"
  have "?h (Suc i) = ?h i \<or> server_step parse len lib fk proves (?h i) (?h (Suc i))" for i
    using h(1,3) step.hyps(2) by (cases "i = n") (auto simp: server_trace_def)
  with h(2) show ?case by (intro exI [of _ ?h] exI [of _ "Suc n"]) (simp add: server_trace_def)
qed

lemma resting_fair: "(\<And>i. n \<le> i \<Longrightarrow> h i = s) \<Longrightarrow> \<not> queue_ready proves s \<Longrightarrow> queue_fair proves h"
  unfolding queue_fair_def by (metis nat_le_linear)

section \<open>Steps of the queue\<close>

lemma quiet_step:
  "server_step parse len lib fk proves s s' \<Longrightarrow> phase s' = phase s \<Longrightarrow> \<exists>ts. sent (svc s') = sent (svc s) @ ts"
  by (induction rule: server_step.induct) (auto simp: server_set_defs)

lemma queue_step_cases:
  assumes "server_step parse len lib fk proves s s'" and "phase s' \<noteq> phase s"
  obtains (receive) task where "phase s = Receiving" "sent (svc s) = task # sent (svc s')" "phase s' = Working task"
  | (proved) task bs where "phase s = Working task" "proves task (Ret (Inr bs))" "phase s' = Saving (task_key task) bs"
      "sent (svc s') = sent (svc s)" "(task, Inr bs) \<in> set (finished s')"
      "server_outputs s' (task_key task) = Some \<lparr>output_proof = bs\<rparr>"
  | (failed) task e where "phase s = Working task" "proves task (Ret (Inl e))" "phase s' = Receiving"
      "sent (svc s') = sent (svc s)"
  | (panicked) task m where "phase s = Working task" "proves task (Panic m)" "phase s' = Ended task"
  | (saved) key bs where "phase s = Saving key bs" "phase s' = Receiving" "sent (svc s') = sent (svc s)"
  using assms by (induction rule: server_step.induct) (auto simp: server_set_defs)

text \<open>When the queue is ready it acts, in the phase it is in, with nothing lost from the channel.\<close>

lemma ready_acts:
  assumes tr: "server_trace parse len lib fk proves h" and fair: "queue_fair proves h" and ready: "queue_ready proves (h i)"
  obtains j ts where "i \<le> j" "phase (h j) = phase (h i)" "sent (svc (h j)) = sent (svc (h i)) @ ts"
    "server_step parse len lib fk proves (h j) (h (Suc j))" "phase (h (Suc j)) \<noteq> phase (h j)"
proof -
  have quiet: "phase (h (i + k)) = phase (h i) \<and> (\<exists>ts. sent (svc (h (i + k))) = sent (svc (h i)) @ ts)"
    if "\<And>j. j < k \<Longrightarrow> phase (h (Suc (i + j))) = phase (h (i + j))" for k
    using that
  proof (induction k)
    case (Suc k)
    then have "phase (h (Suc (i + k))) = phase (h (i + k))" by blast
    with tr have "\<exists>ts. sent (svc (h (Suc (i + k)))) = sent (svc (h (i + k))) @ ts"
      by (cases rule: trace_cases [of _ _ _ _ _ _ "i + k"]) (auto dest: quiet_step)
    with Suc show ?case by fastforce
  qed simp
  have "\<exists>k. phase (h (Suc (i + k))) \<noteq> phase (h (i + k))"
  proof (rule ccontr)
    assume none: "\<nexists>k. phase (h (Suc (i + k))) \<noteq> phase (h (i + k))"
    then have "queue_ready proves (h (i + k))" for k
      using quiet [of k] ready by (auto simp: queue_ready_def split: queue_phase.splits)
    then have "\<forall>j\<ge>i. queue_ready proves (h j)" by (metis le_add_diff_inverse)
    with fair obtain j where "i \<le> j" "phase (h (Suc j)) \<noteq> phase (h j)" unfolding queue_fair_def by blast
    with none show False by (metis le_add_diff_inverse)
  qed
  then obtain k where k: "phase (h (Suc (i + k))) \<noteq> phase (h (i + k))"
    "\<And>j. j < k \<Longrightarrow> phase (h (Suc (i + j))) = phase (h (i + j))"
    using exists_least_iff [of "\<lambda>k. phase (h (Suc (i + k))) \<noteq> phase (h (i + k))"] by blast
  from tr k(1) have "server_step parse len lib fk proves (h (i + k)) (h (Suc (i + k)))"
    by (cases rule: trace_cases [of _ _ _ _ _ _ "i + k"]) auto
  with k(1) quiet [OF k(2)] that [of "i + k"] show ?thesis by auto
qed

section \<open>A waiting task is finished\<close>

text \<open>The distance of a task from its end: three steps of the queue per task before it.\<close>

fun phase_rank :: "('g, 'pk, 'vk) queue_phase \<Rightarrow> nat" where
  "phase_rank (Working _) = 0"
| "phase_rank Receiving = 1"
| "phase_rank _ = 2"

text \<open>\<^verbatim>\<open>prove_task\<close> can end for the task, and does not panic.\<close>

definition ends_well ::
  "(('g, 'pk, 'vk) proving_task \<Rightarrow> (string + bytes) outcome \<Rightarrow> bool) \<Rightarrow> ('g, 'pk, 'vk) proving_task \<Rightarrow> bool" where
  "ends_well proves task \<longleftrightarrow> (\<exists>r. proves task r) \<and> (\<forall>m. \<not> proves task (Panic m))"

lemma waiting_finishes:
  assumes tr: "server_trace parse len lib fk proves h" and fair: "queue_fair proves h"
    and ended: "\<And>t. phase (h i) \<noteq> Ended t"
    and wait: "phase_tasks (phase (h i)) @ sent (svc (h i)) = xs @ task # ys"
    and good: "\<And>t. t \<in> set (xs @ [task]) \<Longrightarrow> ends_well proves t" and only: "\<And>e. \<not> proves task (Ret (Inl e))"
  shows "\<exists>j bs. (task, Inr bs) \<in> set (finished (h j)) \<and> server_outputs (h j) (task_key task) = Some \<lparr>output_proof = bs\<rparr>"
  using ended wait good
proof (induction "3 * length xs + phase_rank (phase (h i))" arbitrary: i xs ys rule: less_induct)
  case less
  have "queue_ready proves (h i)"
    using less.prems by (auto simp: queue_ready_def ends_well_def append_eq_Cons_conv Cons_eq_append_conv split: queue_phase.splits)
  from ready_acts [OF tr fair this] obtain j ts where j: "phase (h j) = phase (h i)"
    "sent (svc (h j)) = sent (svc (h i)) @ ts" "server_step parse len lib fk proves (h j) (h (Suc j))"
    "phase (h (Suc j)) \<noteq> phase (h j)" .
  note IH = less.hyps [of _ "Suc j"]
  from j(3,4) show ?case
  proof (cases rule: queue_step_cases)
    case (receive t)
    with less.prems j have "phase_tasks (phase (h (Suc j))) @ sent (svc (h (Suc j))) = xs @ task # ys @ ts" by simp
    with IH [of xs "ys @ ts"] less.prems receive j show ?thesis by auto
  next
    case (proved t bs)
    show ?thesis
    proof (cases xs)
      case Nil
      with proved less.prems j have "t = task" by simp
      with proved show ?thesis by blast
    next
      case (Cons x xs')
      with IH [of xs' "ys @ ts"] less.prems proved j show ?thesis by auto
    qed
  next
    case (failed t e)
    show ?thesis
    proof (cases xs)
      case Nil
      with failed less.prems j only show ?thesis by auto
    next
      case (Cons x xs')
      with IH [of xs' "ys @ ts"] less.prems failed j show ?thesis by auto
    qed
  next
    case (panicked t m)
    then have "phase (h i) = Working t" using j(1) by simp
    with less.prems(2) have "t \<in> set (xs @ [task])" by (cases xs) auto
    with less.prems(3) panicked show ?thesis by (auto simp: ends_well_def)
  next
    case (saved key bs)
    then have "phase (h i) = Saving key bs" using j(1) by simp
    with IH [of xs "ys @ ts"] less.prems j(2) saved show ?thesis by auto
  qed
qed

text \<open>Where a finished proof was, and that a queue of tasks that end well does not end.\<close>

lemma just_finished:
  "server_step parse len lib fk proves s s' \<Longrightarrow> (task, Inr bs) \<notin> set (finished s) \<Longrightarrow> (task, Inr bs) \<in> set (finished s') \<Longrightarrow>
     server_outputs s' (task_key task) = Some \<lparr>output_proof = bs\<rparr>"
  by (induction rule: server_step.induct) (auto simp: server_set_defs)

lemma finished_output:
  assumes "server_trace parse len lib fk proves h" and "finished (h 0) = []" and "(task, Inr bs) \<in> set (finished (h i))"
  shows "\<exists>j. (task, Inr bs) \<in> set (finished (h j)) \<and> server_outputs (h j) (task_key task) = Some \<lparr>output_proof = bs\<rparr>"
  using assms(3)
proof (induction i)
  case (Suc i)
  show ?case
  proof (cases "(task, Inr bs) \<in> set (finished (h i))")
    case False
    with Suc.prems have "finished (h (Suc i)) \<noteq> finished (h i)" by auto
    with assms(1) have "server_step parse len lib fk proves (h i) (h (Suc i))"
      by (cases rule: trace_cases [of _ _ _ _ _ _ i]) auto
    then have "server_outputs (h (Suc i)) (task_key task) = Some \<lparr>output_proof = bs\<rparr>"
      using False Suc.prems by (rule just_finished)
    with Suc.prems show ?thesis by blast
  qed (rule Suc.IH)
qed (use assms(2) in simp)

lemma ended_panics:
  assumes "server_steps parse len lib fk proves (server_start c db) s" and "phase s = Ended task"
  shows "\<exists>m. proves task (Panic m)"
  using assms
proof (induction rule: rtranclp_induct)
  case (step s1 s2)
  from step.hyps(2) step.IH step.prems show ?case by (induction rule: server_step.induct) (auto simp: server_set_defs)
qed (simp add: server_start_def)

text \<open>Every accepted task is finished, when it and the tasks accepted so far end well.\<close>

lemma accepted_finishes:
  assumes tr: "server_trace parse len lib fk proves h" and fair: "queue_fair proves h" and start: "h 0 = server_start c db"
    and acc: "task \<in> set (accepted (h i))" and good: "\<And>t. t \<in> set (accepted (h i)) \<Longrightarrow> ends_well proves t"
    and only: "\<And>e. \<not> proves task (Ret (Inl e))"
  shows "\<exists>j bs. (task, Inr bs) \<in> set (finished (h j)) \<and> server_outputs (h j) (task_key task) = Some \<lparr>output_proof = bs\<rparr>"
proof -
  have run: "server_steps parse len lib fk proves (server_start c db) (h i)" using trace_steps [OF tr, of i] start by simp
  let ?w = "phase_tasks (phase (h i)) @ sent (svc (h i))"
  have order: "accepted (h i) = map fst (finished (h i)) @ ?w" using reach_order [OF run] by (simp add: order_inv_def)
  from acc order consider "task \<in> fst ` set (finished (h i))" | "task \<in> set ?w" by auto
  then show ?thesis
  proof cases
    case 1
    then obtain r where r: "(task, r) \<in> set (finished (h i))" by auto
    with reach_finished [OF run] have "proves task (Ret r)" by blast
    with only obtain bs where "r = Inr bs" by (cases r) auto
    with finished_output [OF tr _, of task bs i] r start show ?thesis by (auto simp: server_start_def)
  next
    case 2
    then obtain xs ys where w: "?w = xs @ task # ys" by (metis split_list)
    have ends: "ends_well proves t" if "t \<in> set ?w" for t using good order that by auto
    have "phase (h i) \<noteq> Ended t" for t using ended_panics [OF run, of t] ends [of t] by (auto simp: ends_well_def)
    with ends w only show ?thesis by (intro waiting_finishes [OF tr fair _ w]) auto
  qed
qed

section \<open>Restarts\<close>

text \<open>The states in which successive runs of the server stopped; each starts on the database the one before left.\<close>

inductive server_lives ::
  "(string \<Rightarrow> 'v option) \<Rightarrow> (rpc \<Rightarrow> nat) \<Rightarrow> ('g, 'pk, 'vk) app_lib \<Rightarrow> bool \<Rightarrow>
     (('g, 'pk, 'vk) proving_task \<Rightarrow> (string + bytes) outcome \<Rightarrow> bool) \<Rightarrow> database \<Rightarrow> ('g, 'pk, 'vk) server list \<Rightarrow> bool"
  for parse len lib fk proves where
  no_life: "server_lives parse len lib fk proves db []"
| life: "server_steps parse len lib fk proves (server_start c db) s \<Longrightarrow>
     server_lives parse len lib fk proves (server_db s) ss \<Longrightarrow> server_lives parse len lib fk proves db (s # ss)"

inductive_simps server_lives_Cons [simp]: "server_lives parse len lib fk proves db (s # ss)"
inductive_simps server_lives_Nil [simp]: "server_lives parse len lib fk proves db []"

text \<open>The proof was returned for an accepted task with that key, of a registered app.\<close>

definition proved_for ::
  "('g, 'pk, 'vk) app_lib \<Rightarrow> (('g, 'pk, 'vk) proving_task \<Rightarrow> (string + bytes) outcome \<Rightarrow> bool) \<Rightarrow>
     ('g, 'pk, 'vk) server \<Rightarrow> proving_key \<Rightarrow> bytes \<Rightarrow> bool" where
  "proved_for lib proves s key bs \<longleftrightarrow>
     (\<exists>task \<in> set (accepted s). task_key task = key \<and> proves task (Ret (Inr bs)) \<and> task_genuine lib task)"

lemma lives_proved:
  assumes "codec_conforms lib"
  shows "server_lives parse len lib fk proves db ss \<Longrightarrow> rows_genuine lib db \<Longrightarrow> s \<in> set ss \<Longrightarrow>
    (key, Some bs) \<in> set (answers s) \<Longrightarrow>
    proofs db key = Some (Some bs) \<or> (\<exists>s' \<in> set ss. proved_for lib proves s' key bs)"
proof (induction rule: server_lives.induct)
  case (life c db t ss)
  have inv: "server_inv lib proves db t" by (rule server_reach_inv [OF assms life.prems(1) life.hyps(1)])
  have ev: "proofs db key = Some (Some bs) \<or> proved_for lib proves t key bs" if "(key, bs) \<in> evidence t"
    using evidence_proved [OF inv that] by (auto simp: proved_for_def)
  show ?case
  proof (cases "s = t")
    case True
    with life.prems(3) have "(key, bs) \<in> evidence t" by (simp add: evidence_def)
    with ev show ?thesis by auto
  next
    case False
    have "rows_genuine lib (server_db t)" using inv by (simp add: server_inv_def apps_inv_def)
    with life.IH False life.prems have "proofs (server_db t) key = Some (Some bs) \<or> (\<exists>s' \<in> set ss. proved_for lib proves s' key bs)"
      by simp
    then show ?thesis using ev by (auto simp: evidence_def)
  qed
qed simp

lemma lives_durable:
  "server_lives parse len lib fk proves db ss \<Longrightarrow> proofs db key = Some (Some b) \<Longrightarrow> s \<in> set ss \<Longrightarrow>
     (key, None) \<notin> set (answers s)"
proof (induction arbitrary: b rule: server_lives.induct)
  case (life c db t ss)
  have "durable key (server_start c db)" using life.prems(1)
    by (auto simp: durable_def server_start_def GrpcService_new_def)
  with durable_steps [OF life.hyps(1)] obtain b' where "proofs (server_db t) key = Some (Some b')"
    "(key, None) \<notin> set (answers t)" by (auto simp: durable_def server_start_def)
  with life.IH life.prems(2) show ?case by auto
qed simp

lemma lives_after: "server_lives parse len lib fk proves db (us @ t # vs) \<Longrightarrow> server_lives parse len lib fk proves (server_db t) vs"
  by (induction us arbitrary: db) auto

lemma lives_durable_after:
  assumes "server_lives parse len lib fk proves db (ss @ [s])" and "t \<in> set ss" and "durable key t"
  shows "(key, None) \<notin> set (answers s)"
proof -
  from assms(2) obtain us vs where "ss = us @ t # vs" by (metis split_list)
  with assms(1) have "server_lives parse len lib fk proves (server_db t) (vs @ [s])" using lives_after [of _ _ _ _ _ db us t "vs @ [s]"] by simp
  with assms(3) show ?thesis by (auto simp: durable_def dest: lives_durable)
qed

section \<open>A run with a restart\<close>

definition stored_db :: "bytes \<Rightarrow> database" where
  "stored_db bs = unit_db\<lparr>proofs := [unit_key \<mapsto> Some bs]\<rparr>"

definition demo_stored :: "bytes \<Rightarrow> (unit, unit, unit) server" where
  "demo_stored bs = \<lparr>svc = demo_service [unit_key \<mapsto> \<lparr>output_proof = bs\<rparr>] (stored_db bs) [], phase = Receiving,
     registering = [], sending = [], reading = [], accepted = [unit_task], finished = [(unit_task, Inr bs)], answers = []\<rparr>"

lemma demo_server_stored:
  assumes "proves unit_task (Ret (Inr bs))"
  shows "server_steps Some (\<lambda>q. 0) unit_app_lib True proves (server_start demo_cfg empty_db) (demo_stored bs)"
proof -
  let ?s = "demo_server [unit_key \<mapsto> \<lparr>output_proof = bs\<rparr>] (Saving unit_key bs) bs []"
  have "store_proof_in_db True None unit_key bs unit_db = Inr (stored_db bs)"
    by (simp add: store_proof_in_db_def replace_proof_def with_fault_def unit_db_def stored_db_def unit_key_def ProvingKey_new_def)
  then have "server_step Some (\<lambda>q. 0) unit_app_lib True proves ?s (demo_stored bs)"
    using queue_saved [of ?s unit_key bs Some "\<lambda>q. 0" unit_app_lib True proves None]
    by (simp add: demo_server_def demo_stored_def set_db_def demo_service_def)
  with demo_server_saving [of proves bs, OF assms] show ?thesis by (rule rtranclp.rtrancl_into_rtrancl)
qed

lemma demo_second_life:
  "\<exists>s. server_steps Some (\<lambda>q. 0) unit_app_lib True proves (server_start demo_cfg (server_db (demo_stored bs))) s \<and>
     answers s = [(unit_key, Some bs)] \<and> accepted s = []"
proof -
  let ?s = "server_start demo_cfg (stored_db bs) :: (unit, unit, unit) server"
  have key: "ProvingKey_new (gpq_app_id unit_result_request) (gpq_task_id unit_result_request) = unit_key"
    by (simp add: unit_result_request_def unit_key_def)
  have svc: "svc ?s = demo_service Map.empty (stored_db bs) []"
    by (simp add: server_start_def GrpcService_new_def demo_service_def)
  have found: "fst (fetch_ok unit_key (sv (svc ?s))) = Some bs" by (simp only: svc) (simp add: fetch_ok_eq stored_db_def)
  have "admitted Some (\<lambda>q. 0) (cfg (svc ?s)) (demo_call (CallGetProvingResult unit_result_request)) =
      Some (CallGetProvingResult unit_result_request)" by (simp only: svc) (simp add: demo_admitted)
  from result_run [OF this, of unit_app_lib True proves, unfolded key found]
  obtain s where "server_steps Some (\<lambda>q. 0) unit_app_lib True proves ?s s" "answers s = answers ?s @ [(unit_key, Some bs)]"
    "accepted s = accepted ?s" by (rule that) simp_all
  moreover have "server_db (demo_stored bs) = stored_db bs" by (simp add: demo_stored_def)
  ultimately show ?thesis by (auto simp: server_start_def)
qed

end
