(* ===== verification/Tools.thy ===== *)
theory Tools
  imports Server
begin

text \<open>
  The command line tools around the service (\<^verbatim>\<open>bin/\<close>): printing an app identifier, printing
  the digest of the public values, the test client, and the loop that submits Ethereum
  blocks. Each tool takes its \<^verbatim>\<open>Cli\<close> as a record, as clap has filled it. Reading files is the
  parameter \<open>read\<close>; the parameter \<^verbatim>\<open>network\<close> gives the service behind an address, a function of the
  request and of a state that it keeps; the block executor, the subscription to new blocks and
  the codec of the inputs are the parameter \<^verbatim>\<open>reth_lib\<close>. A tool's result is its log text, or the
  error it exits with.
\<close>

section \<open>Printing identifiers and digests\<close>

record app_id_cli =
  ai_elf :: string

definition gen_app_id ::
  "('g, 'pk, 'vk) app_lib \<Rightarrow> (string \<Rightarrow> string + bytes) \<Rightarrow> app_id_cli \<Rightarrow> (string + string) outcome" where
  "gen_app_id lib read cli =
     (case read (ai_elf cli) of
        Inl e \<Rightarrow> Ret (Inl e)
      | Inr elf \<Rightarrow> bind_outcome (App_new lib elf None) (\<lambda>app.
          Ret (Inr (''Generated app_id: 0x'' @ app_id app))))"

text \<open>\<^verbatim>\<open>format!("0x{:064x}", pv_digest)\<close>\<close>

definition format_0x64 :: "u256 \<Rightarrow> string" where
  "format_0x64 w = ''0x'' @ map hex_char (to_base 16 64 (unat w))"

record pv_digest_cli =
  pd_elf :: string
  pd_inputs :: "string option"

definition gen_common_pv_digest ::
  "('g, 'pk, 'vk) app_lib \<Rightarrow> ('g, 'pk, 'vk, 'x, 'o) estimator_lib \<Rightarrow> (string \<Rightarrow> string + bytes) \<Rightarrow> pv_digest_cli \<Rightarrow>
     (string + string \<times> string) outcome" where
  "gen_common_pv_digest lib est read cli =
     (case read (pd_elf cli) of
        Inl e \<Rightarrow> Ret (Inl e)
      | Inr elf \<Rightarrow>
          (case (case pd_inputs cli of Some p \<Rightarrow> map_sum id Some (read p) | None \<Rightarrow> Inr None) of
             Inl e \<Rightarrow> Ret (Inl e)
           | Inr inputs \<Rightarrow> bind_outcome (App_new lib elf None) (\<lambda>app.
               case estimate_cost est (program app) (pk app) (vk app) inputs None False of
                 Inl e \<Rightarrow> Ret (Inl (PicoError_to_string e))
               | Inr ei \<Rightarrow> Ret (Inr (''Emulation cycles: '' @ usize_to_string (ei_total_cycles ei),
                                    ''Generated pv_digest: '' @ format_0x64 (ei_pv_digest ei))))))"

definition generate_pv_digest ::
  "('g, 'pk, 'vk) app_lib \<Rightarrow> ('g, 'pk, 'vk, 'x, 'o) estimator_lib \<Rightarrow> (string \<Rightarrow> string + bytes) \<Rightarrow> string \<Rightarrow> bytes \<Rightarrow>
     (string + string) outcome" where
  "generate_pv_digest lib est read elf_path inputs =
     (case read elf_path of
        Inl e \<Rightarrow> Ret (Inl e)
      | Inr elf \<Rightarrow> bind_outcome (App_new lib elf None) (\<lambda>app.
          case estimate_cost est (program app) (pk app) (vk app) (Some inputs) None False of
            Inl e \<Rightarrow> Ret (Inl (PicoError_to_string e))
          | Inr ei \<Rightarrow> Ret (Inr (format_0x64 (ei_pv_digest ei)))))"

section \<open>Calling the service\<close>

type_synonym 's remote = "rpc \<Rightarrow> 's \<Rightarrow> (string + rpc_response) \<times> 's"

record 's network =
  nw_connect :: "string \<Rightarrow> string + 's remote" \<comment> \<open>\<^verbatim>\<open>ProverNetworkClient::connect\<close>\<close>
  nw_len :: "rpc \<Rightarrow> nat" \<comment> \<open>encoded lengths\<close>
  nw_reply_len :: "rpc_response \<Rightarrow> nat"
  nw_too_long :: string \<comment> \<open>the error for a message over the limit\<close>

text \<open>
  The client with its limits: a request over \<^verbatim>\<open>max_encoding_message_size\<close> is not sent; a reply over
  \<^verbatim>\<open>max_decoding_message_size\<close> is an error, but the service has handled the request.
\<close>

definition limited :: "'s network \<Rightarrow> usize \<Rightarrow> 's remote \<Rightarrow> 's remote" where
  "limited nw limit call q s =
     (if unat limit < nw_len nw q then (Inl (nw_too_long nw), s)
      else case call q s of
        (Inl e, s1) \<Rightarrow> (Inl e, s1)
      | (Inr reply, s1) \<Rightarrow> (if unat limit < nw_reply_len nw reply then Inl (nw_too_long nw) else Inr reply, s1))"

definition prover_network_client :: "'s network \<Rightarrow> string \<Rightarrow> usize \<Rightarrow> string + 's remote" where
  "prover_network_client nw addr limit = map_sum id (limited nw limit) (nw_connect nw addr)"

section \<open>The test client\<close>

record RegisterAppCommand =
  rac_elf :: string
  rac_info :: "string option"

record EstimateCostCommand =
  ecc_app_id :: string
  ecc_inputs :: "string option"

record ProveTaskCommand =
  ptc_app_id :: string
  ptc_task_id :: string
  ptc_inputs :: "string option"
  ptc_use_gpu :: bool

record GetProvingResultCommand =
  gpc_app_id :: string
  gpc_task_id :: string

datatype Command =
    RegisterApp RegisterAppCommand
  | EstimateCost EstimateCostCommand
  | ProveTask ProveTaskCommand
  | GetProvingResult GetProvingResultCommand

record client_cli =
  cl_grpc_addr :: string
  cl_max_grpc_msg_size :: usize
  cl_cmd :: Command

text \<open>The client with the default values of its options.\<close>

definition client_cli_default :: "Command \<Rightarrow> client_cli" where
  "client_cli_default cmd = \<lparr>cl_grpc_addr = ''http://[::]:50052'', cl_max_grpc_msg_size = 1073741824, cl_cmd = cmd\<rparr>"

definition read_inputs :: "(string \<Rightarrow> string + bytes) \<Rightarrow> string option \<Rightarrow> string + bytes option" where
  "read_inputs read inputs = (case inputs of Some p \<Rightarrow> map_sum id Some (read p) | None \<Rightarrow> Inr None)"

text \<open>The request a command of the client sends, or the error of reading its files.\<close>

fun client_request :: "(string \<Rightarrow> string + bytes) \<Rightarrow> Command \<Rightarrow> string + rpc" where
  "client_request read (RegisterApp c) =
     map_sum id (\<lambda>elf. CallRegisterApp \<lparr>rar_elf = elf, rar_info = rac_info c\<rparr>) (read (rac_elf c))"
| "client_request read (EstimateCost c) =
     map_sum id (\<lambda>i. CallEstimateCost \<lparr>ecq_app_id = ecc_app_id c, ecq_inputs = i\<rparr>) (read_inputs read (ecc_inputs c))"
| "client_request read (ProveTask c) =
     map_sum id (\<lambda>i. CallProveTask \<lparr>ptq_app_id = ptc_app_id c, ptq_task_id = ptc_task_id c, ptq_inputs = i,
                                   ptq_use_gpu = Some (ptc_use_gpu c)\<rparr>)
       (read_inputs read (ptc_inputs c))"
| "client_request read (GetProvingResult c) =
     Inr (CallGetProvingResult \<lparr>gpq_app_id = gpc_app_id c, gpq_task_id = gpc_task_id c\<rparr>)"

text \<open>\<^verbatim>\<open>main\<close> of the client: connect, read the files of the command, send its one request.\<close>

definition client_main ::
  "'s network \<Rightarrow> (string \<Rightarrow> string + bytes) \<Rightarrow> client_cli \<Rightarrow> 's \<Rightarrow> (string + rpc_response) \<times> 's" where
  "client_main nw read cli s =
     (case prover_network_client nw (cl_grpc_addr cli) (cl_max_grpc_msg_size cli) of
        Inl e \<Rightarrow> (Inl e, s)
      | Inr call \<Rightarrow>
          (case client_request read (cl_cmd cli) of
             Inl e \<Rightarrow> (Inl e, s)
           | Inr q \<Rightarrow> call q s))"

section \<open>Submitting blocks\<close>

definition RETH_ELF_PATH :: string where
  "RETH_ELF_PATH = ''fixtures/reth-elf''"

record reth_cli =
  rc_rpc_http_url :: string
  rc_rpc_ws_url :: string
  rc_block_interval :: u64
  rc_grpc_addr :: string
  rc_max_grpc_msg_size :: usize
  rc_cache_dir :: string
  rc_use_gpu :: bool
  rc_estimate_cost :: bool

text \<open>The default values of the options; the two URLs have none.\<close>

definition reth_cli_default :: "string \<Rightarrow> string \<Rightarrow> reth_cli" where
  "reth_cli_default rpc_http_url rpc_ws_url =
     \<lparr>rc_rpc_http_url = rpc_http_url, rc_rpc_ws_url = rpc_ws_url, rc_block_interval = 100,
      rc_grpc_addr = ''http://[::]:50052'', rc_max_grpc_msg_size = 1073741824, rc_cache_dir = ''cache_dir'',
      rc_use_gpu = False, rc_estimate_cost = False\<rparr>"

record block_executor_config =
  bec_chain :: u64
  bec_genesis :: string
  bec_rpc_url :: "string option"
  bec_cache_dir :: "string option"
  bec_custom_beneficiary :: "string option"
  bec_prove_mode :: "string option"
  bec_skip_client_execution :: bool
  bec_opcode_tracking :: bool

record 'b reth_lib =
  rl_block_number :: "string \<Rightarrow> string + u64" \<comment> \<open>\<^verbatim>\<open>get_block_number\<close> of the HTTP provider at a URL\<close>
  rl_chain_id :: "string \<Rightarrow> string + u64" \<comment> \<open>\<^verbatim>\<open>get_chain_id\<close>\<close>
  rl_genesis :: "u64 \<Rightarrow> string + string" \<comment> \<open>\<^verbatim>\<open>chain_id.try_into()\<close>\<close>
  rl_executor :: "block_executor_config \<Rightarrow> string + unit" \<comment> \<open>\<^verbatim>\<open>FullExecutor::try_new\<close>\<close>
  rl_subscribe :: "string \<Rightarrow> string + u64 list" \<comment> \<open>the block numbers of the subscription at a URL, until it ends\<close>
  rl_wait :: "u64 \<Rightarrow> string + unit" \<comment> \<open>\<^verbatim>\<open>wait_for_block\<close>\<close>
  rl_execute :: "u64 \<Rightarrow> string + 'b" \<comment> \<open>\<^verbatim>\<open>execute\<close>\<close>
  rl_inputs :: "'b \<Rightarrow> string + bytes" \<comment> \<open>writing into the stdin builder, serialising it\<close>

definition bind_result :: "'e + 'a \<Rightarrow> ('a \<Rightarrow> 'e + 'b) \<Rightarrow> 'e + 'b" where
  "bind_result r f = (case r of Inl e \<Rightarrow> Inl e | Inr x \<Rightarrow> f x)"

text \<open>The body of the loop for one block: the requests it sends to the service.\<close>

definition submit_block ::
  "'b reth_lib \<Rightarrow> string \<Rightarrow> bool \<Rightarrow> bool \<Rightarrow> u64 \<Rightarrow> string + rpc list" where
  "submit_block lib a gpu estimate block_number =
     bind_result (map_sum (\<lambda>e. ''failed to wait for block-'' @ usize_to_string block_number @ '': '' @ e) id
         (rl_wait lib block_number)) (\<lambda>_.
       bind_result (map_sum (\<lambda>e. ''failed to fetch block-'' @ usize_to_string block_number @ '': '' @ e) id
           (rl_execute lib block_number)) (\<lambda>client_input.
         bind_result (rl_inputs lib client_input) (\<lambda>block_inputs.
           Inr (CallProveTask \<lparr>ptq_app_id = a, ptq_task_id = ''task-block-'' @ usize_to_string block_number,
                              ptq_inputs = Some block_inputs, ptq_use_gpu = Some gpu\<rparr>
                # (if estimate then [CallEstimateCost \<lparr>ecq_app_id = a, ecq_inputs = Some block_inputs\<rparr>] else [])))))"

text \<open>\<^verbatim>\<open>Cli::block_executor_config\<close> and \<^verbatim>\<open>block_executor\<close>\<close>

definition block_executor_config :: "'b reth_lib \<Rightarrow> reth_cli \<Rightarrow> string + block_executor_config" where
  "block_executor_config lib cli =
     bind_result (rl_chain_id lib (rc_rpc_http_url cli)) (\<lambda>chain_id.
       bind_result (rl_genesis lib chain_id) (\<lambda>genesis.
         Inr \<lparr>bec_chain = chain_id, bec_genesis = genesis, bec_rpc_url = Some (rc_rpc_http_url cli),
              bec_cache_dir = Some (rc_cache_dir cli), bec_custom_beneficiary = None, bec_prove_mode = None,
              bec_skip_client_execution = False, bec_opcode_tracking = False\<rparr>))"

definition block_executor :: "'b reth_lib \<Rightarrow> reth_cli \<Rightarrow> string + unit" where
  "block_executor lib cli =
     bind_result (rl_block_number lib (rc_rpc_http_url cli)) (\<lambda>_.
       bind_result (block_executor_config lib cli) (\<lambda>config.
         map_sum (\<lambda>e. ''failed to initialize block executor: '' @ e) id (rl_executor lib config)))"

text \<open>Sending requests in order; the first error ends the tool.\<close>

fun send_all :: "'s remote \<Rightarrow> rpc list \<Rightarrow> 's \<Rightarrow> (rpc list \<times> (string + unit)) \<times> 's" where
  "send_all call [] s = (([], Inr ()), s)"
| "send_all call (q # qs) s =
     (case call q s of
        (Inl e, s1) \<Rightarrow> (([q], Inl e), s1)
      | (Inr _, s1) \<Rightarrow> (case send_all call qs s1 of ((sent_qs, r), s2) \<Rightarrow> ((q # sent_qs, r), s2)))"

text \<open>
  The loop over the block headers of the subscription: the requests sent and how it ended.
  The filter takes the remainder by \<^verbatim>\<open>block_interval\<close>, which panics for 0.
\<close>

fun reth_loop ::
  "'b reth_lib \<Rightarrow> 's remote \<Rightarrow> string \<Rightarrow> u64 \<Rightarrow> bool \<Rightarrow> bool \<Rightarrow> u64 list \<Rightarrow> 's \<Rightarrow>
     ((rpc list \<times> (string + unit)) \<times> 's) outcome" where
  "reth_loop lib call a interval gpu estimate [] s = Ret (([], Inr ()), s)"
| "reth_loop lib call a interval gpu estimate (number # headers) s =
     (if interval = 0 then Panic ''attempt to calculate the remainder with a divisor of zero''
      else if number mod interval \<noteq> 0 then reth_loop lib call a interval gpu estimate headers s
      else case submit_block lib a gpu estimate number of
        Inl e \<Rightarrow> Ret (([], Inl e), s)
      | Inr qs \<Rightarrow>
          (case send_all call qs s of
             ((sent_qs, Inl e), s1) \<Rightarrow> Ret ((sent_qs, Inl e), s1)
           | ((sent_qs, Inr _), s1) \<Rightarrow>
               bind_outcome (reth_loop lib call a interval gpu estimate headers s1)
                 (\<lambda>((rest, r), s2). Ret ((sent_qs @ rest, r), s2))))"

text \<open>
  \<^verbatim>\<open>register_reth\<close>: the app is computed locally, a refused registration only gives a warning.
\<close>

definition register_reth ::
  "('g, 'pk, 'vk) app_lib \<Rightarrow> (string \<Rightarrow> string + bytes) \<Rightarrow> 's remote \<Rightarrow> 's \<Rightarrow>
     ((string + ('g, 'pk, 'vk) App \<times> string option) \<times> 's) outcome" where
  "register_reth lib read call s =
     (case read RETH_ELF_PATH of
        Inl e \<Rightarrow> Ret (Inl e, s)
      | Inr elf \<Rightarrow> bind_outcome (App_new lib elf None) (\<lambda>app.
          case call (CallRegisterApp \<lparr>rar_elf = elf, rar_info = None\<rparr>) s of
            (Inl e, s1) \<Rightarrow> Ret (Inr (app, Some (''RegisterApp: err='' @ e)), s1)
          | (Inr _, s1) \<Rightarrow> Ret (Inr (app, None), s1)))"

text \<open>
  \<^verbatim>\<open>main\<close>: connect, register, set up the executor, subscribe and loop. The result is the
  requests of the loop and how the tool ended.
\<close>

definition reth_main ::
  "('g, 'pk, 'vk) app_lib \<Rightarrow> 'b reth_lib \<Rightarrow> 's network \<Rightarrow> (string \<Rightarrow> string + bytes) \<Rightarrow> reth_cli \<Rightarrow> 's \<Rightarrow>
     ((rpc list \<times> (string + unit)) \<times> 's) outcome" where
  "reth_main lib rlib nw read cli s =
     (case prover_network_client nw (rc_grpc_addr cli) (rc_max_grpc_msg_size cli) of
        Inl e \<Rightarrow> Ret (([], Inl e), s)
      | Inr call \<Rightarrow> bind_outcome (register_reth lib read call s) (\<lambda>(r, s1).
          case r of
            Inl e \<Rightarrow> Ret (([], Inl e), s1)
          | Inr (app, _) \<Rightarrow>
              (case bind_result (block_executor rlib cli) (\<lambda>_. rl_subscribe rlib (rc_rpc_ws_url cli)) of
                 Inl e \<Rightarrow> Ret (([], Inl e), s1)
               | Inr headers \<Rightarrow>
                   reth_loop rlib call (app_id app) (rc_block_interval cli) (rc_use_gpu cli) (rc_estimate_cost cli)
                     headers s1)))"

section \<open>Lemmas\<close>

lemma hex_values_of_format:
  "map (\<lambda>c. the (hex_value c)) (drop 2 (format_0x64 w)) = to_base 16 64 (unat w)"
  using to_base_digits [of 16 _ 64 "unat w"] by (auto simp: format_0x64_def hex_value_char intro!: map_idI)

lemma format_value: "from_base 16 (map (\<lambda>c. the (hex_value c)) (drop 2 (format_0x64 w))) = unat (w :: u256)"
proof -
  have "unat w < 16 ^ 64" using unsigned_less [where ?'a = nat, of w] by simp
  then show ?thesis by (simp add: hex_values_of_format from_base_to_base)
qed

lemma length_format [simp]: "length (format_0x64 w) = 66"
  by (simp add: format_0x64_def)

fun task_of :: "rpc \<Rightarrow> string option" where
  "task_of (CallProveTask q) = Some (ptq_task_id q)"
| "task_of _ = None"

lemma send_all_prefix: "send_all call qs s = ((sent_qs, r), s') \<Longrightarrow> \<exists>rest. qs = sent_qs @ rest"
  by (induction qs arbitrary: s sent_qs) (auto split: sum.splits prod.splits)

lemma submit_block_tasks:
  assumes "submit_block lib a gpu estimate b = Inr qs"
  shows "List.map_filter task_of qs = [''task-block-'' @ usize_to_string b]"
  using assms by (auto simp: submit_block_def bind_result_def map_filter_simps split: sum.splits if_splits)

lemma send_all_complete: "send_all call qs s = ((sent_qs, Inr u), s') \<Longrightarrow> sent_qs = qs"
  by (induction qs arbitrary: s sent_qs) (auto split: sum.splits prod.splits)

abbreviation tasks_of :: "rpc list \<Rightarrow> string list" where
  "tasks_of qs \<equiv> List.map_filter task_of qs"

lemma map_filter_append: "List.map_filter f (xs @ ys) = List.map_filter f xs @ List.map_filter f ys"
  by (induction xs) (simp_all add: List.map_filter_def)

definition block_task :: "u64 \<Rightarrow> string" where
  "block_task b = ''task-block-'' @ usize_to_string b"

lemma reth_loop_tasks:
  assumes "reth_loop lib call a interval gpu estimate headers s = Ret ((qs, r), s')"
  shows "(\<exists>rest. map block_task (filter (\<lambda>b. b mod interval = 0) headers) = tasks_of qs @ rest) \<and>
    (r = Inr () \<longrightarrow> map block_task (filter (\<lambda>b. b mod interval = 0) headers) = tasks_of qs)"
  using assms
proof (induction headers arbitrary: s qs r)
  case (Cons b headers)
  show ?case
  proof (cases "b mod interval = 0")
    case True
    from Cons.prems have i: "interval \<noteq> 0" by (auto split: if_splits)
    show ?thesis
    proof (cases "submit_block lib a gpu estimate b")
      case (Inl e)
      with Cons.prems True i show ?thesis by (auto simp: map_filter_simps)
    next
      case (Inr bqs)
      note tb = submit_block_tasks [OF Inr, folded block_task_def]
      obtain sq sr s1 where sa: "send_all call bqs s = ((sq, sr), s1)" by (cases "send_all call bqs s") auto
      obtain rest where pre: "bqs = sq @ rest" using send_all_prefix [OF sa] by auto
      show ?thesis
      proof (cases sr)
        case (Inl e)
        with Cons.prems True i Inr sa \<open>submit_block lib a gpu estimate b = Inr bqs\<close>
        have "qs = sq" "r = Inl e" by auto
        with tb pre show ?thesis by (auto simp: True map_filter_append append_eq_Cons_conv Cons_eq_append_conv)
      next
        case (Inr u)
        with Cons.prems True i sa \<open>submit_block lib a gpu estimate b = Inr bqs\<close> obtain rest' where
          l: "reth_loop lib call a interval gpu estimate headers s1 = Ret ((rest', r), s')" "qs = sq @ rest'"
          by (auto simp: bind_outcome_eq_Ret)
        have "sq = bqs" using sa Inr by (auto dest: send_all_complete)
        with Cons.IH [OF l(1)] l(2) tb True show ?thesis by (auto simp: map_filter_append)
      qed
    qed
  next
    case False
    with Cons show ?thesis by (auto split: if_splits)
  qed
qed (auto simp: map_filter_simps)

lemma block_task_inject: "block_task b = block_task c \<longleftrightarrow> b = c"
  by (simp add: block_task_def)

lemma block_tasks_distinct:
  assumes "map block_task (filter P headers) = ts @ rest" and "distinct headers"
  shows "distinct ts"
proof -
  have "distinct (map block_task (filter P headers))"
    using assms(2) by (simp add: distinct_map inj_on_def block_task_inject)
  with assms(1) show ?thesis by simp
qed

section \<open>Tools and service together\<close>

text \<open>The answer of a handler: a status, or a panic, is an error of the call.\<close>

definition service_reply ::
  "('g, 'pk, 'vk) app_lib \<Rightarrow> ('g, 'pk, 'vk, 'x, 'o) estimator_lib \<Rightarrow> ('g, 'pk, 'vk) service remote" where
  "service_reply lib est call s =
     (case dispatch lib est call s of
        Ret (Inr reply, s') \<Rightarrow> (Inr reply, s')
      | Ret (Inl st, s') \<Rightarrow> (Inl (st_message st), s')
      | Panic m \<Rightarrow> (Inl m, s))"

text \<open>
  The service as the tools see it. They send their requests as they are, without metadata; what
  the layers in front of the handlers do not admit is answered with the error \<open>refusal\<close>.
\<close>

definition plain_request :: "rpc \<Rightarrow> ('v, rpc) tonic_request" where
  "plain_request q = \<lparr>req_metadata = Map.empty, req_inner = q\<rparr>"

definition remote_service ::
  "(string \<Rightarrow> 'v option) \<Rightarrow> (rpc \<Rightarrow> nat) \<Rightarrow> string \<Rightarrow> ('g, 'pk, 'vk) app_lib \<Rightarrow> ('g, 'pk, 'vk, 'x, 'o) estimator_lib \<Rightarrow>
     ('g, 'pk, 'vk) service remote" where
  "remote_service parse len refusal lib est q s =
     (case admitted parse len (cfg s) (plain_request q) of
        None \<Rightarrow> (Inl refusal, s)
      | Some call \<Rightarrow> service_reply lib est call s)"

text \<open>Behind every address of the network is the service.\<close>

definition serves ::
  "(string \<Rightarrow> 'v option) \<Rightarrow> string \<Rightarrow> ('g, 'pk, 'vk) app_lib \<Rightarrow> ('g, 'pk, 'vk, 'x, 'o) estimator_lib \<Rightarrow>
     ('g, 'pk, 'vk) service network \<Rightarrow> bool" where
  "serves parse refusal lib est nw \<longleftrightarrow>
     (\<forall>addr call. nw_connect nw addr = Inr call \<longrightarrow> call = remote_service parse (nw_len nw) refusal lib est)"

text \<open>The request is within the limits of client and server.\<close>

definition fits_limits :: "'s network \<Rightarrow> usize \<Rightarrow> ServiceConfig \<Rightarrow> rpc \<Rightarrow> bool" where
  "fits_limits nw limit c q \<longleftrightarrow> nw_len nw q \<le> unat limit \<and> nw_len nw q \<le> unat (max_grpc_msg_size c)"

lemma limited_state:
  assumes "auth_method (cfg s) = AuthNone" and "fits_limits nw limit (cfg s) q"
  shows "snd (limited nw limit (remote_service parse (nw_len nw) refusal lib est) q s) = snd (service_reply lib est q s)"
  using assms by (auto simp: limited_def remote_service_def admitted_def server_auth_interceptor_def plain_request_def
      fits_limits_def split: sum.splits prod.splits)

lemma limited_refused:
  assumes "auth_method (cfg s) = AuthBearer"
  shows "\<exists>e. limited nw limit (remote_service parse len refusal lib est) q s = (Inl e, s)"
  using assms by (auto simp: limited_def remote_service_def admitted_def server_auth_interceptor_def plain_request_def
      split: sum.splits prod.splits)

text \<open>Serialising a program and its keys does not fail.\<close>

definition codec_total :: "('g, 'pk, 'vk) app_lib \<Rightarrow> bool" where
  "codec_total lib \<longleftrightarrow> (\<forall>g. \<exists>bs. al_ser_program lib g = Inr bs) \<and> (\<forall>k. \<exists>bs. al_ser_pk lib k = Inr bs) \<and>
     (\<forall>v. \<exists>bs. al_ser_vk lib v = Inr bs)"

lemma AppRow_from_total: "codec_total lib \<Longrightarrow> \<exists>row. AppRow_from lib app = Ret row \<and> row_app_id row = app_id app"
  unfolding codec_total_def AppRow_from_def unwrap_result_def
  by (metis (mono_tags, lifting) AppRow.select_convs(1) bind_outcome.simps(1) sum.simps(6))

text \<open>After a registration, refused or not, the app is found.\<close>

lemma registered_or_known:
  assumes "codec_conforms lib" "codec_total lib" "hash_conforms lib" "rows_genuine lib (db_of s)"
    and app: "App_new lib elf None = Ret app"
    and call: "service_reply lib est (CallRegisterApp \<lparr>rar_elf = elf, rar_info = None\<rparr>) s = (r, s1)"
  shows "(\<exists>app'. require_app lib None (app_id app) (db_of s1) = Ret (Inr app')) \<and> rows_genuine lib (db_of s1) \<and> sent s1 = sent s \<and> cfg s1 = cfg s"
proof -
  from App_new_id [OF assms(3) app] obtain ds where "app_id app = map hex_char ds" "\<And>d. d \<in> set ds \<Longrightarrow> d < 16" by auto
  then have strip: "strip_0x (app_id app) = app_id app" by (simp add: strip_0x_hex)
  show ?thesis
  proof (cases "apps (db_of s) (app_id app)")
    case None
    then have "get_app lib None (app_id app) (db_of s) = Ret (Inr None)"
      by (simp add: get_app_def strip select_app_def with_fault_def)
    moreover obtain row where row: "AppRow_from lib app = Ret row" "row_app_id row = app_id app"
      using AppRow_from_total [OF assms(2)] by blast
    moreover from None row have i: "set_app_insert lib None app (db_of s) =
        Ret (Inr app, (db_of s)\<lparr>apps := (apps (db_of s))(app_id app \<mapsto> row)\<rparr>)"
      by (simp add: set_app_insert_def insert_app_def with_fault_def domIff)
    ultimately have s1: "s1 = s\<lparr>sv := (sv s)\<lparr>q_db := (db_of s)\<lparr>apps := (apps (db_of s))(app_id app \<mapsto> row)\<rparr>\<rparr>\<rparr>"
      using call app by (simp add: service_reply_def dispatch_def register_app_def set_app_def)
    then have "require_app lib None (app_id app) (db_of s1) = Ret (Inr app)"
      using App_row_roundtrip [OF assms(1) row(1)] by (intro require_app_found get_app_row) (simp_all add: strip)
    with s1 rows_genuine_insert [OF assms(4) app i] show ?thesis by auto
  next
    case (Some row)
    with assms(4) obtain elf' i' app' where "App_new lib elf' i' = Ret app'" "AppRow_from lib app' = Ret row"
      unfolding rows_genuine_def by blast
    then have g: "get_app lib None (app_id app) (db_of s) = Ret (Inr (Some app'))"
      using App_row_roundtrip [OF assms(1)] Some by (intro get_app_row) (simp_all add: strip)
    then have "s1 = s" using call app by (simp add: service_reply_def dispatch_def register_app_def set_app_def)
    with require_app_found [OF g] assms(4) show ?thesis by blast
  qed
qed

lemma reply_prove:
  assumes "require_app lib None (ptq_app_id q) (db_of s) = Ret (Inr app)"
  shows "snd (service_reply lib est (CallProveTask q) s) = s\<lparr>sent := sent s @ [task_for q app]\<rparr>"
  using assms by (simp add: service_reply_def dispatch_def prove_task_def)

lemma reply_estimate: "snd (service_reply lib est (CallEstimateCost q) s) = s"
  by (cases "estimate_cost_handler lib est None q s") (auto simp: service_reply_def dispatch_def map_sum_def split: sum.splits)

text \<open>A client whose requests are handled as the service handles them.\<close>

definition handled_by ::
  "('g, 'pk, 'vk) app_lib \<Rightarrow> ('g, 'pk, 'vk, 'x, 'o) estimator_lib \<Rightarrow> ServiceConfig \<Rightarrow> ('g, 'pk, 'vk) service remote \<Rightarrow> rpc \<Rightarrow> bool" where
  "handled_by lib est c call q \<longleftrightarrow> (\<forall>s. cfg s = c \<longrightarrow> snd (call q s) = snd (service_reply lib est q s))"

lemma submit_block_sent:
  assumes "submit_block rlib a gpu estimate b = Inr qs" and "send_all call qs s = ((sent_qs, r), s1)"
    and "require_app lib None a (db_of s) = Ret (Inr app)" and "\<And>q. q \<in> set sent_qs \<Longrightarrow> handled_by lib est (cfg s) call q"
  shows "\<exists>task. sent s1 = sent s @ [task] \<and> db_of s1 = db_of s \<and> cfg s1 = cfg s \<and> tasks_of sent_qs = [block_task b] \<and>
    key_task_id (task_key task) = block_task b \<and> (\<exists>q. ptq_app_id q = a \<and> task = task_for q app)"
proof -
  obtain q rest where qs: "qs = CallProveTask q # rest" "rest = [] \<or> (\<exists>e. rest = [CallEstimateCost e])"
    and q: "ptq_app_id q = a" "ptq_task_id q = block_task b"
    using assms(1) by (auto simp: submit_block_def bind_result_def block_task_def split: sum.splits if_splits)
  let ?s = "s\<lparr>sent := sent s @ [task_for q app]\<rparr>"
  have "CallProveTask q \<in> set sent_qs" using assms(2) qs(1) by (auto split: prod.splits sum.splits)
  then have "snd (call (CallProveTask q) s) = ?s"
    using assms(3,4) q reply_prove [of lib q s app est] by (simp add: handled_by_def)
  then obtain x where x: "call (CallProveTask q) s = (x, ?s)" by (cases "call (CallProveTask q) s") auto
  have "snd (call (CallEstimateCost e) ?s) = ?s" if "CallEstimateCost e \<in> set sent_qs" for e
    using assms(4) [OF that] by (simp add: handled_by_def reply_estimate)
  then have "s1 = ?s \<and> tasks_of sent_qs = [block_task b]"
    using assms(2) qs q x by (auto simp: map_filter_simps split: prod.splits sum.splits)
  moreover have "key_task_id (task_key (task_for q app)) = block_task b"
    using q by (simp add: task_for_def ProvingKey_new_def Let_def)
  ultimately show ?thesis using q by auto
qed

lemma reth_loop_sent:
  assumes "reth_loop rlib call a interval gpu estimate headers s = Ret ((qs, r), s')"
    and "require_app lib None a (db_of s) = Ret (Inr app)" and "\<And>q. q \<in> set qs \<Longrightarrow> handled_by lib est (cfg s) call q"
  shows "\<exists>new. sent s' = sent s @ new \<and> map (\<lambda>t. key_task_id (task_key t)) new = tasks_of qs \<and>
    (\<forall>task \<in> set new. \<exists>q. ptq_app_id q = a \<and> task = task_for q app)"
  using assms
proof (induction headers arbitrary: s qs)
  case (Cons b headers)
  show ?case
  proof (cases "b mod interval = 0 \<and> interval \<noteq> 0")
    case False
    with Cons show ?thesis by (auto split: if_splits)
  next
    case True
    show ?thesis
    proof (cases "submit_block rlib a gpu estimate b")
      case (Inl e)
      with Cons.prems True show ?thesis by (auto simp: map_filter_simps)
    next
      case (Inr bqs)
      note bqs = Inr
      obtain sq sr s1 where sa: "send_all call bqs s = ((sq, sr), s1)" by (cases "send_all call bqs s") auto
      have sub: "set sq \<subseteq> set qs" using Cons.prems(1) True bqs sa by (cases sr) (auto simp: bind_outcome_eq_Ret)
      then obtain task where t: "sent s1 = sent s @ [task]" "db_of s1 = db_of s" "cfg s1 = cfg s" "tasks_of sq = [block_task b]"
        "key_task_id (task_key task) = block_task b" "\<exists>q. ptq_app_id q = a \<and> task = task_for q app"
        using submit_block_sent [OF bqs sa Cons.prems(2)] Cons.prems(3) by blast
      show ?thesis
      proof (cases sr)
        case (Inl e)
        with Cons.prems True bqs sa t show ?thesis by auto
      next
        case (Inr u)
        with Cons.prems(1) True sa bqs obtain rest where
          l: "reth_loop rlib call a interval gpu estimate headers s1 = Ret ((rest, r), s')" "qs = sq @ rest"
          by (auto simp: bind_outcome_eq_Ret)
        obtain new where "sent s' = sent s1 @ new" "map (\<lambda>t. key_task_id (task_key t)) new = tasks_of rest"
          "\<forall>task \<in> set new. \<exists>q. ptq_app_id q = a \<and> task = task_for q app"
          using Cons.IH [OF l(1)] Cons.prems(2,3) t(2,3) l(2) by auto
        with t l(2) show ?thesis by (intro exI [of _ "task # new"]) (auto simp: map_filter_append)
      qed
    qed
  qed
qed (auto simp: map_filter_simps)

text \<open>A client whose requests are all refused changes nothing.\<close>

lemma reth_loop_refused:
  assumes "\<And>q. \<exists>e. call q s = (Inl e, s)" and "reth_loop rlib call a interval gpu estimate headers s = Ret ((qs, r), s')"
  shows "s' = s"
  using assms(2)
proof (induction headers)
  case (Cons b headers)
  show ?case
  proof (cases "submit_block rlib a gpu estimate b")
    case (Inr bqs)
    then obtain q rest where "bqs = CallProveTask q # rest"
      by (auto simp: submit_block_def bind_result_def split: sum.splits if_splits)
    moreover obtain e where "call (CallProveTask q) s = (Inl e, s)" using assms(1) by blast
    ultimately show ?thesis using Cons Inr by (auto split: if_splits)
  qed (use Cons in \<open>auto split: if_splits\<close>)
qed simp

section \<open>Properties\<close>

definition demo_reth :: "u64 reth_lib" where
  "demo_reth = \<lparr>rl_block_number = (\<lambda>u. Inr 99), rl_chain_id = (\<lambda>u. Inr 1), rl_genesis = (\<lambda>c. Inr ''mainnet''), rl_executor = (\<lambda>c. Inr ()),
     rl_subscribe = (\<lambda>u. Inr [100, 150, 200, 300, 400]), rl_wait = (\<lambda>b. Inr ()), rl_execute = (\<lambda>b. if b = 300 then Inl ''rpc'' else Inr b),
     rl_inputs = (\<lambda>b. Inr [ucast b])\<rparr>"

lemma reth_loop_returns: "interval \<noteq> 0 \<Longrightarrow> \<exists>x. reth_loop rlib call a interval gpu estimate headers s = Ret x"
proof (induction headers arbitrary: s)
  case (Cons b headers)
  show ?case
  proof (cases "submit_block rlib a gpu estimate b")
    case (Inr qs)
    obtain sq sr s1 where sa: "send_all call qs s = ((sq, sr), s1)" by (cases "send_all call qs s") auto
    moreover obtain y where "reth_loop rlib call a interval gpu estimate headers s1 = Ret y" using Cons by blast
    moreover obtain z where "reth_loop rlib call a interval gpu estimate headers s = Ret z" using Cons by blast
    ultimately show ?thesis using Inr Cons.prems by (cases sr; cases y; cases z) (auto simp: bind_outcome_eq_Ret)
  qed (use Cons in auto)
qed simp


text \<open>The service on a network, for witnesses.\<close>

definition demo_network :: "(bytes, unit, bytes) service network" where
  "demo_network = \<lparr>nw_connect = (\<lambda>a. Inr (remote_service Some (\<lambda>q. 0) ''refused'' demo_app_lib demo_estimator)),
     nw_len = (\<lambda>q. 0), nw_reply_len = (\<lambda>r. 0), nw_too_long = ''too large''\<rparr>"

abbreviation demo_reth_cli :: reth_cli where
  "demo_reth_cli \<equiv> reth_cli_default ''http://rpc'' ''ws://rpc''"

lemma demo_serves: "serves Some ''refused'' demo_app_lib demo_estimator demo_network"
  by (simp add: serves_def demo_network_def)

lemma demo_reth_main: "\<exists>qs r s'. reth_main demo_app_lib demo_reth demo_network (\<lambda>p. Inr [1, 2]) demo_reth_cli s = Ret ((qs, r), s')"
proof -
  obtain call where call: "prover_network_client demo_network (rc_grpc_addr demo_reth_cli) (rc_max_grpc_msg_size demo_reth_cli) = Inr call"
    by (simp add: prover_network_client_def demo_network_def)
  obtain app where app: "App_new demo_app_lib [1, 2] None = Ret app" using demo_set_app by blast
  obtain x s1 where reg: "call (CallRegisterApp \<lparr>rar_elf = [1, 2], rar_info = None\<rparr>) s = (x, s1)"
    by (cases "call (CallRegisterApp \<lparr>rar_elf = [1, 2], rar_info = None\<rparr>) s")
  have start: "bind_result (block_executor demo_reth demo_reth_cli) (\<lambda>_. rl_subscribe demo_reth (rc_rpc_ws_url demo_reth_cli)) =
      Inr [100, 150, 200, 300, 400]"
    by (simp add: block_executor_def block_executor_config_def bind_result_def demo_reth_def)
  have "rc_block_interval demo_reth_cli \<noteq> 0" by (simp add: reth_cli_default_def)
  then obtain y where "reth_loop demo_reth call (app_id app) (rc_block_interval demo_reth_cli) (rc_use_gpu demo_reth_cli)
      (rc_estimate_cost demo_reth_cli) [100, 150, 200, 300, 400] s1 = Ret y"
    by (metis reth_loop_returns)
  with call app reg start show ?thesis by (cases x; cases y) (auto simp: reth_main_def register_reth_def)
qed




text \<open>
  The identifier printed by the tool is the one the service registers: for the same ELF
  file, a successful registration returns exactly the printed identifier without its \<^verbatim>\<open>0x\<close>.
\<close>

lemma gen_app_id_matches:
  assumes "read (ai_elf cli) = Inr elf" and "gen_app_id lib read cli = Ret (Inr line)"
    and "register_app lib f1 f2 between \<lparr>rar_elf = elf, rar_info = i\<rparr> s = Ret (Inr res, s')"
  shows "line = ''Generated app_id: 0x'' @ rares_app_id res"
proof -
  obtain app db where a: "set_app lib f1 f2 between elf i (db_of s) = Ret (Inr app, db)"
    and res: "res = \<lparr>rares_err = None, rares_app_id = app_id app\<rparr>"
    by (rule register_app_success [OF assms(3)]) (auto intro: that)
  have n: "App_new lib elf i = Ret app" using a by (rule set_app_success)
  from assms(1,2) obtain app' where n': "App_new lib elf None = Ret app'"
    and line: "line = ''Generated app_id: 0x'' @ app_id app'"
    by (auto simp: gen_app_id_def bind_outcome_eq_Ret)
  have "app_id app' = app_id app" using n n'
    by (auto simp: App_new_def bind_outcome_eq_Ret Let_def case_prod_beta split: if_splits)
  with line res show ?thesis by simp
qed

text \<open>
  The digest printed by the tool is the digest the service answers with: for the same app and
  inputs, when the trial runs of both end with the same public values, the hexadecimal value
  of the printed text is the big-endian value of the bytes in the response.
\<close>

lemma printed_digest_matches:
  assumes "trial_run est g k v inputs None False = Ret (Inr (r1, c1, pv))"
    and "trial_run est g k v inputs mc True = Ret (Inr (r2, c2, pv))"
    and "estimate_cost est g k v inputs None False = Inr e1"
    and "estimate_cost est g k v inputs mc True = Inr e2"
  shows "from_base 16 (map (\<lambda>c. the (hex_value c)) (drop 2 (format_0x64 (ei_pv_digest e1)))) =
    from_base 256 (map unat (be_bytes 32 (unat (ei_pv_digest e2))))"
proof -
  have "ei_pv_digest e1 = ei_pv_digest e2"
    using assms by (auto simp: estimate_cost_cases split: outcome.splits)
  moreover have "unat (ei_pv_digest e2) < 256 ^ 32" using unsigned_less [where ?'a = nat, of "ei_pv_digest e2"] by simp
  ultimately show ?thesis by (simp add: format_value from_base_be_bytes)
qed

end
