(* ===== verification/Input_Tools.thy ===== *)
theory Input_Tools
  imports Tools Emulator
begin

text \<open>
  The tools that write files: example inputs (\<^verbatim>\<open>bin/gen_input_example.rs\<close>), the inputs and the digest
  of an Ethereum block (\<^verbatim>\<open>bin/gen_reth_inputs.rs\<close>) and the conversion of a stored block input
  (\<^verbatim>\<open>bin/normalize_reth_inputs.rs\<close>). The file system is a finite map from paths to contents;
  \<open>fault\<close> gives the error with which an access to a path fails. pico-vm's stdin builder and its
  codec are the parameter \<^verbatim>\<open>stdin_lib\<close>, the block executor is the parameter \<^verbatim>\<open>block_lib\<close>.
\<close>

section \<open>Files\<close>

type_synonym files = "string \<rightharpoonup> bytes"

definition fs_read :: "(string \<Rightarrow> string option) \<Rightarrow> files \<Rightarrow> string \<Rightarrow> string + bytes" where
  "fs_read fault fs path =
     (case fault path of
        Some e \<Rightarrow> Inl e
      | None \<Rightarrow> (case fs path of None \<Rightarrow> Inl ''No such file or directory (os error 2)'' | Some bs \<Rightarrow> Inr bs))"

definition fs_write :: "(string \<Rightarrow> string option) \<Rightarrow> string \<Rightarrow> bytes \<Rightarrow> files \<Rightarrow> string + files" where
  "fs_write fault path bs fs = (case fault path of Some e \<Rightarrow> Inl e | None \<Rightarrow> Inr (fs(path \<mapsto> bs)))"

text \<open>\<^verbatim>\<open>PathBuf::join\<close> for a relative file name\<close>

definition path_join :: "string \<Rightarrow> string \<Rightarrow> string" where
  "path_join dir name = (if dir = [] then name else if last dir = CHR ''/'' then dir @ name else dir @ CHR ''/'' # name)"

definition string_bytes :: "string \<Rightarrow> bytes" where
  "string_bytes cs = map of_char cs"

text \<open>\<^verbatim>\<open>hex::encode\<close>\<close>

definition hex_encode :: "bytes \<Rightarrow> string" where
  "hex_encode bs = concat (map (\<lambda>b. [hex_char (unat b div 16), hex_char (unat b mod 16)]) bs)"

record ('a, 'o) stdin_lib =
  il_new_builder :: 'o
  il_write :: "'o \<Rightarrow> 'a \<Rightarrow> 'o"
  il_serialize :: "'o \<Rightarrow> string + bytes" \<comment> \<open>\<^verbatim>\<open>bincode::serialize\<close>\<close>
  il_partial :: "'o \<Rightarrow> bytes" \<comment> \<open>what \<^verbatim>\<open>serialize_into\<close> has written when it fails\<close>

section \<open>Example inputs\<close>

text \<open>
  The four argument types. The element type of \<^verbatim>\<open>vec![1, 2, 3, 4]\<close> is not constrained by anything, so
  it is \<^verbatim>\<open>i32\<close>.
\<close>

datatype stdin_arg = ArgBool bool | ArgU32 u32 | ArgStr string | ArgVecI32 "32 word list"

definition dump_input ::
  "(stdin_arg, 'o) stdin_lib \<Rightarrow> (string \<Rightarrow> string option) \<Rightarrow> stdin_arg \<Rightarrow> string \<Rightarrow> string \<Rightarrow> files \<Rightarrow> (string \<times> files) outcome" where
  "dump_input lib fault arg path label fs =
     (let stdin_builder = il_write lib (il_new_builder lib) arg
      in bind_outcome (unwrap_result (il_serialize lib stdin_builder)) (\<lambda>input.
           bind_outcome (unwrap_result (fs_write fault path input fs)) (\<lambda>fs'.
             Ret (label @ '': 0x'' @ hex_encode input, fs'))))"

definition generate_bool_input ::
  "(stdin_arg, 'o) stdin_lib \<Rightarrow> (string \<Rightarrow> string option) \<Rightarrow> files \<Rightarrow> (string \<times> files) outcome" where
  "generate_bool_input lib fault = dump_input lib fault (ArgBool False) ''bool_input.bin'' ''Generated bool input''"

definition generate_u32_input ::
  "(stdin_arg, 'o) stdin_lib \<Rightarrow> (string \<Rightarrow> string option) \<Rightarrow> files \<Rightarrow> (string \<times> files) outcome" where
  "generate_u32_input lib fault = dump_input lib fault (ArgU32 100) ''u32_input.bin'' ''Generated u32 input''"

definition generate_string_input ::
  "(stdin_arg, 'o) stdin_lib \<Rightarrow> (string \<Rightarrow> string option) \<Rightarrow> files \<Rightarrow> (string \<times> files) outcome" where
  "generate_string_input lib fault =
     dump_input lib fault (ArgStr ''dummy string'') ''str_input.bin'' ''Generated string input''"

definition generate_bytes_input ::
  "(stdin_arg, 'o) stdin_lib \<Rightarrow> (string \<Rightarrow> string option) \<Rightarrow> files \<Rightarrow> (string \<times> files) outcome" where
  "generate_bytes_input lib fault =
     dump_input lib fault (ArgVecI32 [1, 2, 3, 4]) ''bytes_input.bin'' ''Generated bytes input''"

text \<open>\<^verbatim>\<open>main\<close>: the printed lines and the files at the end.\<close>

definition gen_input_example ::
  "(stdin_arg, 'o) stdin_lib \<Rightarrow> (string \<Rightarrow> string option) \<Rightarrow> files \<Rightarrow> (string list \<times> files) outcome" where
  "gen_input_example lib fault fs =
     bind_outcome (generate_bool_input lib fault fs) (\<lambda>(l1, fs1).
       bind_outcome (generate_u32_input lib fault fs1) (\<lambda>(l2, fs2).
         bind_outcome (generate_string_input lib fault fs2) (\<lambda>(l3, fs3).
           bind_outcome (generate_bytes_input lib fault fs3) (\<lambda>(l4, fs4).
             Ret ([l1, l2, l3, l4], fs4)))))"

section \<open>Inputs of a block\<close>

record ('a, 'c) block_lib =
  bl_mainnet :: "string + 'c" \<comment> \<open>\<^verbatim>\<open>chain_spec::mainnet()\<close>\<close>
  bl_execute :: "'c \<Rightarrow> string \<Rightarrow> u64 \<Rightarrow> string + 'a" \<comment> \<open>\<^verbatim>\<open>EthHostExecutor::execute\<close> against the RPC provider at a URL\<close>

definition generate_inputs :: "('a, 'o) stdin_lib \<Rightarrow> ('a, 'c) block_lib \<Rightarrow> u64 \<Rightarrow> string \<Rightarrow> string + bytes" where
  "generate_inputs lib bl block_number rpc_url =
     bind_result (bl_mainnet bl) (\<lambda>chain_spec.
       bind_result (bl_execute bl chain_spec rpc_url block_number) (\<lambda>input.
         il_serialize lib (il_write lib (il_new_builder lib) input)))"

definition input_name :: "u64 \<Rightarrow> string" where
  "input_name block_number = ''reth_input_'' @ usize_to_string block_number @ ''.bin''"

definition digest_name :: "u64 \<Rightarrow> string" where
  "digest_name block_number = ''reth_pv_digest_'' @ usize_to_string block_number @ ''.bin''"

record reth_inputs_cli =
  gr_block_number :: u64
  gr_elf :: string
  gr_dump_dir :: string
  gr_rpc_url :: string

definition reth_inputs_cli_default :: "u64 \<Rightarrow> string \<Rightarrow> reth_inputs_cli" where
  "reth_inputs_cli_default block_number rpc_url =
     \<lparr>gr_block_number = block_number, gr_elf = ''fixtures/reth-elf'', gr_dump_dir = ''.'', gr_rpc_url = rpc_url\<rparr>"

text \<open>\<^verbatim>\<open>main\<close>; \<open>mkdir\<close> gives the result of \<^verbatim>\<open>create_dir_all\<close>.\<close>

definition gen_reth_inputs ::
  "('g, 'pk, 'vk) app_lib \<Rightarrow> ('g, 'pk, 'vk, 'x, 'o) estimator_lib \<Rightarrow> ('a, 'b) stdin_lib \<Rightarrow> ('a, 'c) block_lib \<Rightarrow>
     (string \<Rightarrow> string option) \<Rightarrow> (string \<Rightarrow> string + unit) \<Rightarrow> reth_inputs_cli \<Rightarrow> files \<Rightarrow> ((string + unit) \<times> files) outcome" where
  "gen_reth_inputs lib est il bl fault mkdir cli fs =
     (let block_number = gr_block_number cli; elf = gr_elf cli; dump_dir = gr_dump_dir cli; rpc_url = gr_rpc_url cli
      in case mkdir dump_dir of
        Inl e \<Rightarrow> Ret (Inl e, fs)
      | Inr _ \<Rightarrow>
          (case generate_inputs il bl block_number rpc_url of
             Inl e \<Rightarrow> Ret (Inl e, fs)
           | Inr inputs \<Rightarrow>
               (case fs_write fault (path_join dump_dir (input_name block_number)) inputs fs of
                  Inl e \<Rightarrow> Ret (Inl e, fs)
                | Inr fs1 \<Rightarrow>
                    bind_outcome (generate_pv_digest lib est (fs_read fault fs1) elf inputs) (\<lambda>r.
                      case r of
                        Inl e \<Rightarrow> Ret (Inl e, fs1)
                      | Inr pv_digest \<Rightarrow>
                          (case fs_write fault (path_join dump_dir (digest_name block_number)) (string_bytes pv_digest) fs1 of
                             Inl e \<Rightarrow> Ret (Inl e, fs1)
                           | Inr fs2 \<Rightarrow> Ret (Inr (), fs2))))))"

section \<open>Conversion of a stored block input\<close>

text \<open>
  The output file is created, hence empty, before the builder is written into it. \<open>decode\<close> is
  \<^verbatim>\<open>bincode::deserialize_from\<close> on the contents of the input file.
\<close>

record normalize_cli =
  nz_input :: string
  nz_output :: string

definition normalize_reth_inputs ::
  "('a, 'o) stdin_lib \<Rightarrow> (bytes \<Rightarrow> string + 'a) \<Rightarrow> (string \<Rightarrow> string option) \<Rightarrow> normalize_cli \<Rightarrow> files \<Rightarrow>
     (string + unit) \<times> files" where
  "normalize_reth_inputs lib decode fault cli fs =
     (case bind_result (fs_read fault fs (nz_input cli)) decode of
        Inl e \<Rightarrow> (Inl e, fs)
      | Inr client_input \<Rightarrow>
          (let stdin_builder = il_write lib (il_new_builder lib) client_input
           in case fs_write fault (nz_output cli) [] fs of
                Inl e \<Rightarrow> (Inl e, fs)
              | Inr fs1 \<Rightarrow>
                  (case il_serialize lib stdin_builder of
                     Inl e \<Rightarrow> (Inl e, fs1(nz_output cli \<mapsto> il_partial lib stdin_builder))
                   | Inr bs \<Rightarrow> (Inr (), fs1(nz_output cli \<mapsto> bs)))))"

section \<open>Lemmas\<close>

lemma dump_input_Ret:
  "dump_input lib fault arg path label fs = Ret (line, fs') \<longleftrightarrow>
     (\<exists>bs. il_serialize lib (il_write lib (il_new_builder lib) arg) = Inr bs \<and> fault path = None \<and>
        fs' = fs(path \<mapsto> bs) \<and> line = label @ '': 0x'' @ hex_encode bs)"
  by (auto simp: dump_input_def fs_write_def outcome_simps split: option.splits)

lemmas generators_def = generate_bool_input_def generate_u32_input_def generate_string_input_def generate_bytes_input_def

definition example_files :: "(string \<times> stdin_arg) list" where
  "example_files = [(''bool_input.bin'', ArgBool False), (''u32_input.bin'', ArgU32 100),
     (''str_input.bin'', ArgStr ''dummy string''), (''bytes_input.bin'', ArgVecI32 [1, 2, 3, 4])]"

lemma gen_input_example_files:
  assumes "gen_input_example lib fault fs = Ret (lines, fs')" and "(path, arg) \<in> set example_files"
  shows "\<exists>bs. il_serialize lib (il_write lib (il_new_builder lib) arg) = Inr bs \<and> fs' path = Some bs \<and> fault path = None"
  using assms
  by (auto simp: gen_input_example_def generators_def bind_outcome_eq_Ret dump_input_Ret example_files_def)

lemma input_digest_paths: "path_join dir (input_name n) \<noteq> path_join dir (digest_name m)"
  by (simp add: path_join_def input_name_def digest_name_def)

lemma generate_pv_digest_Ret:
  "generate_pv_digest lib est read path inputs = Ret (Inr digest) \<longleftrightarrow>
     (\<exists>elf app ei. read path = Inr elf \<and> App_new lib elf None = Ret app \<and>
        estimate_cost est (program app) (pk app) (vk app) (Some inputs) None False = Inr ei \<and>
        digest = format_0x64 (ei_pv_digest ei))"
proof (cases "read path")
  case (Inr elf)
  show ?thesis
  proof (cases "App_new lib elf None")
    case (Ret app)
    with Inr show ?thesis
      by (cases "estimate_cost est (program app) (pk app) (vk app) (Some inputs) None False")
        (auto simp: generate_pv_digest_def)
  qed (use Inr in \<open>simp add: generate_pv_digest_def\<close>)
qed (simp add: generate_pv_digest_def)

text \<open>The paths of the two files.\<close>

abbreviation input_path :: "reth_inputs_cli \<Rightarrow> string" where
  "input_path cli \<equiv> path_join (gr_dump_dir cli) (input_name (gr_block_number cli))"

abbreviation digest_path :: "reth_inputs_cli \<Rightarrow> string" where
  "digest_path cli \<equiv> path_join (gr_dump_dir cli) (digest_name (gr_block_number cli))"

lemma gen_reth_inputs_success:
  assumes "gen_reth_inputs lib est il bl fault mkdir cli fs = Ret (Inr (), fs')"
  obtains inputs digest where "generate_inputs il bl (gr_block_number cli) (gr_rpc_url cli) = Inr inputs"
    "generate_pv_digest lib est (fs_read fault (fs(input_path cli \<mapsto> inputs))) (gr_elf cli) inputs = Ret (Inr digest)"
    "fs' = fs(input_path cli \<mapsto> inputs, digest_path cli \<mapsto> string_bytes digest)"
proof -
  from assms obtain u inputs fs1 where i: "mkdir (gr_dump_dir cli) = Inr u"
    "generate_inputs il bl (gr_block_number cli) (gr_rpc_url cli) = Inr inputs"
    "fs_write fault (input_path cli) inputs fs = Inr fs1"
    by (auto simp: gen_reth_inputs_def Let_def split: sum.splits)
  let ?g = "generate_pv_digest lib est (fs_read fault fs1) (gr_elf cli) inputs"
  from assms i obtain r where r: "?g = Ret r" by (cases ?g) (auto simp: gen_reth_inputs_def Let_def)
  with assms i obtain digest where "r = Inr digest" by (cases r) (auto simp: gen_reth_inputs_def Let_def)
  with assms i r that show ?thesis
    by (auto simp: gen_reth_inputs_def Let_def fs_write_def split: option.splits sum.splits)
qed

text \<open>A library for witnesses: builders are lists of arguments, one byte each.\<close>

definition demo_stdin :: "(stdin_arg, bytes) stdin_lib" where
  "demo_stdin = \<lparr>il_new_builder = [], il_write = (\<lambda>b a. b @ [case a of ArgBool _ \<Rightarrow> 1 | ArgU32 _ \<Rightarrow> 2 | ArgStr _ \<Rightarrow> 3 | ArgVecI32 _ \<Rightarrow> 4]),
     il_serialize = (\<lambda>b. if b = [] then Inl ''empty'' else Inr b), il_partial = (\<lambda>b. [])\<rparr>"

definition demo_byte_emulator :: "(unit, nat, bytes) emulator_lib" where
  "demo_byte_emulator = \<lparr>el_new_builder = [], el_deserialize = (\<lambda>bs. if bs = [] then Inl ''eof'' else Inr bs),
     el_finalize = (\<lambda>b. b), el_setup_keys = (\<lambda>g. []), el_witness = (\<lambda>g b k. b), el_emulator = (\<lambda>w. w),
     el_next_record_batch = (\<lambda>w. ([length w], Ret (True, w)))\<rparr>"

section \<open>Properties\<close>

text \<open>
  C39. The example inputs reach the program: when the generator has finished, the client's proving
  request for any of the four files carries its contents, and the task the service builds
  from that request starts the emulator on a stdin with exactly the argument of that file. None
  of the files overwrites another. The hypothesis is that bincode reads back what it wrote.
\<close>

theorem generated_inputs_accepted:
  assumes "\<And>b bs. il_serialize lib b = Inr bs \<Longrightarrow> el_deserialize elib bs = Inr b"
    and "gen_input_example lib fault fs = Ret (lines, fs')" and "(path, arg) \<in> set example_files"
  shows "\<exists>q. client_request (fs_read fault fs') (ProveTask \<lparr>ptc_app_id = a, ptc_task_id = t, ptc_inputs = Some path, ptc_use_gpu = gpu\<rparr>) = Inr (CallProveTask q) \<and>
    emulator_setup elib (task_for q app) = Ret (el_emulator elib (el_witness elib (program app)
      (el_finalize elib (il_write lib (il_new_builder lib) arg)) (el_setup_keys elib (program app))))"
proof -
  obtain bs where bs: "il_serialize lib (il_write lib (il_new_builder lib) arg) = Inr bs" "fs' path = Some bs" "fault path = None"
    using gen_input_example_files [OF assms(2,3)] by blast
  let ?q = "\<lparr>ptq_app_id = a, ptq_task_id = t, ptq_inputs = Some bs, ptq_use_gpu = Some gpu\<rparr>"
  have "client_request (fs_read fault fs') (ProveTask \<lparr>ptc_app_id = a, ptc_task_id = t, ptc_inputs = Some path, ptc_use_gpu = gpu\<rparr>) = Inr (CallProveTask ?q)"
    using bs by (simp add: read_inputs_def fs_read_def)
  moreover have "emulator_setup elib (task_for ?q app) = Ret (el_emulator elib (el_witness elib (program app)
      (el_finalize elib (il_write lib (il_new_builder lib) arg)) (el_setup_keys elib (program app))))"
    using assms(1) [OF bs(1)] by (simp add: emulator_setup_def task_for_def Let_def)
  ultimately show ?thesis by blast
qed

theorem generated_inputs_accepted_witness:
  "\<exists>lines fs' q. gen_input_example demo_stdin (\<lambda>p. None) Map.empty = Ret (lines, fs') \<and>
     client_request (fs_read (\<lambda>p. None) fs') 
       (ProveTask \<lparr>ptc_app_id = ''a'', ptc_task_id = ''t'', ptc_inputs = Some ''u32_input.bin'', ptc_use_gpu = False\<rparr>) = Inr (CallProveTask q) \<and>
     emulator_setup demo_byte_emulator (task_for q unit_app) = Ret [2]"
proof -
  have "\<exists>lines fs'. gen_input_example demo_stdin (\<lambda>p. None) Map.empty = Ret (lines, fs')"
    by (simp add: gen_input_example_def generators_def dump_input_def demo_stdin_def unwrap_result_def fs_write_def
        Let_def)
  then obtain lines fs' where g: "gen_input_example demo_stdin (\<lambda>p. None) Map.empty = Ret (lines, fs')" by blast
  have c: "el_deserialize demo_byte_emulator bs = Inr b" if "il_serialize demo_stdin b = Inr bs" for b bs
    using that by (auto simp: demo_stdin_def demo_byte_emulator_def split: if_splits)
  have "(''u32_input.bin'', ArgU32 100) \<in> set example_files" by (simp add: example_files_def)
  from generated_inputs_accepted [OF c g this, of "''a''" "''t''" False unit_app] g show ?thesis
    by (auto simp: demo_byte_emulator_def demo_stdin_def)
qed


definition demo_block :: "(stdin_arg, unit) block_lib" where
  "demo_block = \<lparr>bl_mainnet = Inr (), bl_execute = (\<lambda>c u n. Inr (ArgBool (n = 0)))\<rparr>"

abbreviation demo_inputs_cli :: reth_inputs_cli where
  "demo_inputs_cli \<equiv> reth_inputs_cli_default 7 ''http://rpc''"

lemma demo_block_inputs: "generate_inputs demo_stdin demo_block n u = Inr [1]"
  by (simp add: generate_inputs_def bind_result_def demo_stdin_def demo_block_def)

lemma demo_estimate: "\<exists>ei. estimate_cost demo_estimator g k v (Some [1]) None False = Inr ei"
  by (simp add: estimate_cost_cases trial_run_def demo_estimator_def)

lemma demo_gen_reth_inputs:
  "\<exists>fs'. gen_reth_inputs demo_app_lib demo_estimator demo_stdin demo_block (\<lambda>p. None) (\<lambda>d. Inr ()) demo_inputs_cli
     [''fixtures/reth-elf'' \<mapsto> [1, 2]] = Ret (Inr (), fs')"
proof -
  let ?fs = "[''fixtures/reth-elf'' \<mapsto> [1, 2], input_path demo_inputs_cli \<mapsto> [1]]"
  obtain app where app: "App_new demo_app_lib [1, 2] None = Ret app" using demo_set_app by blast
  obtain ei where ei: "estimate_cost demo_estimator (program app) (pk app) (vk app) (Some [1]) None False = Inr ei"
    using demo_estimate [of "program app" "pk app" "vk app"] by blast
  have "input_path demo_inputs_cli \<noteq> ''fixtures/reth-elf''" by (simp add: path_join_def input_name_def reth_inputs_cli_default_def)
  with app ei have "generate_pv_digest demo_app_lib demo_estimator (fs_read (\<lambda>p. None) ?fs) (gr_elf demo_inputs_cli) [1] =
      Ret (Inr (format_0x64 (ei_pv_digest ei)))"
    by (auto simp: generate_pv_digest_Ret fs_read_def reth_inputs_cli_default_def)
  then show ?thesis by (simp add: gen_reth_inputs_def demo_block_inputs fs_write_def Let_def)
qed


end
