(* ===== verification/Spec2Isabelle.thy ===== *)
theory Spec2Isabelle
  imports Proving_Shutdown Onchain_Daemon Server_Progress Input_Tools
begin

text \<open>
  A verification development of the Pico proving service, a gRPC server that registers
  RISC-V programs, estimates the cost of running them and proves their execution. The Rust
  code is under \<^verbatim>\<open>src/\<close> (the service) and \<^verbatim>\<open>bin/\<close> (the server and the tools around it).

  \<^bold>\<open>The program.\<close> A client registers an ELF file (\<^verbatim>\<open>RegisterApp\<close>), may ask for a trial run
  (\<^verbatim>\<open>EstimateCost\<close>), submits a task (\<^verbatim>\<open>ProveTask\<close>) and polls for the proof (\<^verbatim>\<open>GetProvingResult\<close>).
  Submitted tasks go through a channel to the proving queue, which proves one task at a time
  and stores the proof in memory and in SQLite. Proving a task starts an emulator, a gateway
  and a number of provers that exchange messages over channels. The emulator cuts the
  execution into chunks; a prover converts each chunk into a recursion proof; the gateway
  keeps the proofs in a tree, merges neighbours into combine tasks, and marks the last
  combine task; the prover that gets it compresses, embeds and verifies the proof. The
  gateway then turns the embed proof into 320 bytes for the chain with the gnark prover.

  \<^bold>\<open>Theories and sources.\<close>
  \<^item> \<^verbatim>\<open>Prelude\<close>: words for \<^verbatim>\<open>usize\<close>, \<^verbatim>\<open>u64\<close> and \<^verbatim>\<open>U256\<close>, panics as values (type \<open>outcome\<close>), decimal
    numbers, lemmas on lists, words and multisets.
  \<^item> \<^verbatim>\<open>BTree_Map\<close>: the ordered map of the standard library. Locale \<^verbatim>\<open>ordered_map\<close> is what the tree
    uses of it.
  \<^item> \<^verbatim>\<open>Proof_Tree\<close>: \<^verbatim>\<open>proving/gateway/handler/proof_tree.rs\<close>. The tiling invariant, its
    preservation, and \<^verbatim>\<open>init_node\<close> and \<^verbatim>\<open>set_proof\<close> branch by branch, panics included.
  \<^item> \<^verbatim>\<open>Messages\<close>: \<^verbatim>\<open>proving/messages/\<close>.
  \<^item> \<^verbatim>\<open>Gateway_Handler\<close>, \<^verbatim>\<open>Gateway\<close>: \<^verbatim>\<open>proving/gateway/handler/mod.rs\<close> and \<^verbatim>\<open>proving/gateway/mod.rs\<close>.
    One iteration of the gateway loop is a function of the state and the message taken.
  \<^item> \<^verbatim>\<open>Onchain\<close>: \<^verbatim>\<open>proving/onchain.rs\<close>. The decoder of the gnark answer is the inverse of the
    printed form, and a proof has 320 bytes. \<^verbatim>\<open>Onchain_Daemon\<close> is the monitor thread of the same
    file, interleaved with changes of the world it watches.
  \<^item> \<^verbatim>\<open>Worker\<close>: \<^verbatim>\<open>proving/worker/\<close>. Conversion, combination, compression, embedding and the prover
    loop. Locale \<^verbatim>\<open>prover_contract\<close> is what the gateway relies on.
  \<^item> \<^verbatim>\<open>Emulator\<close>: \<^verbatim>\<open>proving/emulator.rs\<close>. The emulator thread may run forever, so it is a partial
    function into an option, or panic; \<open>emulation\<close> relates it to the batches.
  \<^item> \<^verbatim>\<open>Proving\<close>: \<^verbatim>\<open>proving/mod.rs\<close>. The step relation that interleaves emulator, gateway and provers.
    \<^verbatim>\<open>Proving_Schedule\<close> makes it executable: a list of choices is a run, and every run is given by
    such a list.
  \<^item> \<^verbatim>\<open>Proving_Safety\<close>, \<^verbatim>\<open>Proving_Liveness\<close>, \<^verbatim>\<open>Proving_Properties\<close>: the invariant of the interleaved
    system by rule induction, the measure that bounds every run, and the properties.
  \<^item> \<^verbatim>\<open>Proving_Shutdown\<close>: the joins at the end of \<^verbatim>\<open>prove_task\<close>. The ledger of tasks is extended by those
    that ended with their prover.
  \<^item> \<^verbatim>\<open>Proving_Task\<close>, \<^verbatim>\<open>Proving_Queue\<close>: \<^verbatim>\<open>proving_queue.rs\<close>.
  \<^item> \<^verbatim>\<open>Service_Error\<close>, \<^verbatim>\<open>Cost_Estimation\<close>, \<^verbatim>\<open>Auth\<close>, \<^verbatim>\<open>App_Manager\<close>, \<^verbatim>\<open>Grpc\<close>: \<^verbatim>\<open>error.rs\<close>,
    \<^verbatim>\<open>cost_estimation.rs\<close>, \<^verbatim>\<open>config.rs\<close> with \<^verbatim>\<open>utils/auth.rs\<close>, \<^verbatim>\<open>app_manager.rs\<close> and \<^verbatim>\<open>grpc.rs\<close>.
  \<^item> \<^verbatim>\<open>Database\<close>: the SQL statements the service executes, on finite maps. Locales
    \<^verbatim>\<open>keyed_store\<close> and \<^verbatim>\<open>write_once_store\<close> are the contracts of its tables.
  \<^item> \<^verbatim>\<open>Server\<close>: \<^verbatim>\<open>bin/server.rs\<close>, \<^verbatim>\<open>GrpcService::run\<close> and the loop of \<^verbatim>\<open>ProvingQueue::run\<close>. The step relation
    \<open>server_step\<close> interleaves requests and queue at the points where the code awaits; the handlers of
    \<^verbatim>\<open>Grpc\<close> are its uninterrupted runs.
  \<^item> \<^verbatim>\<open>Server_Progress\<close>: infinite histories of the server with a fair queue, and restarts on the database
    that the last run left.
  \<^item> \<^verbatim>\<open>Tools\<close>, \<^verbatim>\<open>Input_Tools\<close>: the other programs of \<^verbatim>\<open>bin/\<close>, those that call the service and those
    that write files, with the service or a map of files as the state they change and their options
    as records.
  \<^item> This theory: the properties that span the server and the proving task.

  \<^bold>\<open>Libraries.\<close> pico-vm, pico-perf, the gnark prover, tonic's header values, the block executor
  and the 256-bit integer library are not part of the repository. Each is a record of
  functions (\<open>pico_vm\<close>, \<open>gnark_lib\<close>, \<open>emulator_lib\<close>, \<open>estimator_lib\<close>, \<open>app_lib\<close>, \<open>reth_lib\<close>,
  \<open>stdin_lib\<close>, \<open>block_lib\<close>, \<open>network\<close>) or a function argument. What a property assumes of them is a hypothesis of its statement, and
  its witness discharges it for a concrete instance (\<open>demo_vm\<close>, \<open>demo_emulator\<close>, \<open>demo_lib\<close>
  and so on). Faults of the database and of channels are arguments too.

  \<^bold>\<open>What is shown.\<close>
  \<^item> A result of a proving task is the on-chain form of an embed proof that verified and that
    was built from the conversions of records 0 to some \<open>j\<close>, combined without gap or overlap,
    whatever the interleaving. If the verifier rejects proper prefixes, all records are
    covered. Combining starts before the emulator has finished, and the last combine task can
    be marked before all records are known, so the hypothesis on prefixes is needed
    (\<open>premature_completion\<close>).
  \<^item> With at least two chunks, one prover, libraries that do not panic and a proof that
    verifies, every maximal run returns a proof. A run has at most \<open>10 n + 2 + 2 p\<close> steps for
    \<open>n\<close> records and \<open>p\<close> provers. With fewer than two chunks no run returns (\<open>short_program_hangs\<close>).
    At most one prover ever leaves its loop, so with two or more the wait for the provers
    times out (\<open>prover_join_times_out\<close>).
  \<^item> In every interleaving of requests and queue, and across restarts, a proof given to a client comes from an accepted
    task with its key, that carries the program and the keys of the app the key names, and has
    the guarantee of the first item. Accepted tasks are handled in order, none is lost or
    repeated. Apps and stored proofs never disappear. Results behave like one map although they
    are kept in memory and in the database, except in the window between the two stores
    (\<open>result_flickers\<close>). When the queue is treated
    fairly, every accepted task among provable ones is finished with a proof
    (\<open>accepted_task_finishes\<close>). One task that panics ends the queue (\<open>bad_task_ends_queue\<close>), one that
    never verifies or never ends blocks it (\<open>stuck_task_blocks_queue\<close>).
  \<^item> Registration never changes a stored app; a registered app is found, with and without the
    prefix \<^verbatim>\<open>0x\<close>; only requests with the configured token pass; the cost and the digest that
    an estimate reports are those of the run; each error of an estimate has its code. The
    monitor of the gnark prover ends for good when a file is missing (\<open>monitor_ends_for_good\<close>).
  \<^item> The tools agree with the service: on identifiers, on digests, on the encoding of inputs. They send
    no token, so a service with authentication refuses them (\<open>tools_send_no_token\<close>).

  \<^bold>\<open>Bounds.\<close> Word arithmetic wraps, as in the release build. Properties of whole runs assume
  fewer than \<open>2 ^ 64\<close> chunks, so that \<^verbatim>\<open>chunk_index\<close> and the node keys do not wrap. No definition
  uses fuel.

  \<^bold>\<open>Not modelled.\<close> Log output, time measurements and counters of log lines; the parsing of command
  lines and environment variables by clap; what tonic does below the handlers besides
  authentication and the limit on messages (CORS, gRPC-web, compression, shutdown); threads and
  runtimes, except as the interleaving of their actions; module declarations, type aliases and
  the protobuf generator, which have no logic of their own.
\<close>

section \<open>From a submitted task to a served proof\<close>

text \<open>The records a task emulates to, when the emulation ends without a panic.\<close>

definition task_records :: "('g, 'r, 'm) emulator_lib \<Rightarrow> ('g, 'pk, 'vk) proving_task \<Rightarrow> 'r list option" where
  "task_records lib task =
     (case emulator_setup lib task of
        Panic _ \<Rightarrow> None
      | Ret em \<Rightarrow> (case emulator_thread (el_next_record_batch lib) em of Some (recs, None) \<Rightarrow> Some recs | _ \<Rightarrow> None))"

text \<open>What the queue sees of a task: the results and panics of \<^verbatim>\<open>prove_task\<close>.\<close>

definition task_outcome ::
  "('pk, 'vk, 'r, 'p, 'e, 'o) pico_vm \<Rightarrow> ('g, 'r, 'm) emulator_lib \<Rightarrow> ('e \<Rightarrow> (string + bytes) outcome) \<Rightarrow> nat \<Rightarrow>
     ('g, 'pk, 'vk) proving_task \<Rightarrow> (string + bytes) outcome \<Rightarrow> bool" where
  "task_outcome vm lib onchain n task r =
     (case r of Ret x \<Rightarrow> prove_task_returns vm lib onchain task n x | Panic m \<Rightarrow> prove_task_panics vm lib task n m)"

lemma task_records_start:
  "prove_task_start vm lib task n = Some (Ret (s0, None)) \<longleftrightarrow>
     \<not> (use_gpu task \<and> 0 < n) \<and> (\<exists>recs. task_records lib task = Some recs \<and> s0 = psys_init recs n)"
  by (auto simp: prove_task_start_def task_records_def Prover_new_cuda_def split: outcome.splits option.splits)

lemma prove_task_returns_reachable:
  "prove_task_returns vm lib onchain task n r \<longleftrightarrow> \<not> (use_gpu task \<and> 0 < n) \<and>
     (\<exists>recs s. task_records lib task = Some recs \<and> reachable vm task recs n onchain s \<and> prove_task_result s = Some r)"
  by (auto simp: prove_task_returns_def task_records_start)

lemma demo_records: "task_records demo_emulator demo_task = Some [2, 3, 0, 1]"
proof -
  have "emulator_setup demo_emulator demo_task = Ret 1"
    by (simp add: emulator_setup_def demo_emulator_def demo_task_def)
  then show ?thesis using emulation_thread [OF demo_emulation] by (simp add: task_records_def)
qed

lemma demo_task_returns:
  assumes "\<And>ep. returns (onchain ep)"
  shows "\<exists>bs. prove_task_returns (demo_vm [2, 3, 0, 1]) demo_emulator onchain demo_task 1 (Inr bs)"
  using demo_run_completes [of "[2, 3, 0, 1]" onchain] assms demo_records
  by (auto simp: prove_task_returns_reachable demo_task_def)

lemma demo_task_unit: "demo_task = unit_task"
  by (simp add: demo_task_def unit_task_def unit_key_def)

text \<open>What stands behind the bytes that \<^verbatim>\<open>prove_task\<close> returned for a task.\<close>

definition backed ::
  "('pk, 'vk, 'r, 'p, 'e, 'o) pico_vm \<Rightarrow> ('g, 'r, 'm) emulator_lib \<Rightarrow> ('e, 'q) gnark_lib \<Rightarrow> ('g, 'pk, 'vk) proving_task \<Rightarrow>
     bytes \<Rightarrow> bool" where
  "backed vm lib gl task bs \<longleftrightarrow>
     (\<exists>recs p j ep r. task_records lib task = Some recs \<and> covers vm task recs p 0 j \<and> 0 < j \<and> embeds vm task p ep \<and>
        prove_embed_onchain gl ep = Ret r \<and>
        (case r of Inr proof_bytes \<Rightarrow> bs = proof_bytes \<and> length bs = 320 | Inl _ \<Rightarrow> bs = []))"

lemma returned_backed:
  assumes "prove_task_returns vm lib (prove_embed_onchain gl) task n (Inr bs)"
    and "\<And>recs. task_records lib task = Some recs \<Longrightarrow> length recs < 2 ^ 64"
  shows "backed vm lib gl task bs"
proof -
  obtain recs s where r: "task_records lib task = Some recs" "reachable vm task recs n (prove_embed_onchain gl) s"
    "prove_task_result s = Some (Inr bs)"
    using assms(1) by (auto simp: prove_task_returns_reachable)
  obtain p j ep x where p: "covers vm task recs p 0 j" "0 < j" "embeds vm task p ep"
    and x: "prove_embed_onchain gl ep = Ret x" "bs = (case x of Inr proof_bytes \<Rightarrow> proof_bytes | Inl _ \<Rightarrow> [])"
    using result_embed [OF r(2) assms(2) [OF r(1)] r(3)] by blast
  have "case x of Inr proof_bytes \<Rightarrow> bs = proof_bytes \<and> length bs = 320 | Inl _ \<Rightarrow> bs = []"
  proof (cases x)
    case (Inr b)
    with x onchain_decodes [of gl ep b] decode_length show ?thesis by auto
  qed (simp add: x)
  with r(1) p x(1) show ?thesis unfolding backed_def by blast
qed

text \<open>
  C10. What the service serves is what it proved, across restarts. Start the server on any database
  of genuine apps, let requests and queue interleave in any way, and restart it any number of
  times on the database the last run left: every proof a client receives in the last run was in
  the first database, or belongs to a task accepted in one of the runs, with that key and with the
  program and the keys of a registered ELF file under the identifier the key names; it is the 320
  bytes of the on-chain form (or empty, when the on-chain phase failed) of an embed proof,
  verified against the task's key, of a gapless combination of at least two of the task's
  emulation records from the first on. And a proof that one run left in the database is never
  missing in a later one.
\<close>

theorem restarts_serve_verified:
  assumes "codec_conforms apps_lib" and "rows_genuine apps_lib db"
    and "server_lives parse len apps_lib fk (task_outcome vm lib (prove_embed_onchain gl) n) db (ss @ [s])"
    and "\<And>t task recs. t \<in> set (ss @ [s]) \<Longrightarrow> task \<in> set (accepted t) \<Longrightarrow> task_records lib task = Some recs \<Longrightarrow> length recs < 2 ^ 64"
  shows "((key, Some bs) \<in> set (answers s) \<longrightarrow> proofs db key = Some (Some bs) \<or>
      (\<exists>t \<in> set (ss @ [s]). \<exists>task \<in> set (accepted t). task_key task = key \<and> task_genuine apps_lib task \<and> backed vm lib gl task bs)) \<and>
    (\<forall>t \<in> set ss. durable key t \<longrightarrow> (key, None) \<notin> set (answers s))"
proof (intro conjI impI ballI)
  assume "(key, Some bs) \<in> set (answers s)"
  from lives_proved [OF assms(1,3,2) _ this]
  have "proofs db key = Some (Some bs) \<or>
      (\<exists>t \<in> set (ss @ [s]). proved_for apps_lib (task_outcome vm lib (prove_embed_onchain gl) n) t key bs)" by simp
  then show "proofs db key = Some (Some bs) \<or>
      (\<exists>t \<in> set (ss @ [s]). \<exists>task \<in> set (accepted t). task_key task = key \<and> task_genuine apps_lib task \<and> backed vm lib gl task bs)"
    unfolding proved_for_def using returned_backed assms(4) by (fastforce simp: task_outcome_def)
next
  fix t assume "t \<in> set ss" and "durable key t"
  then show "(key, None) \<notin> set (answers s)" using lives_durable_after [OF assms(3)] by simp
qed

theorem restarts_serve_verified_witness:
  "\<exists>bs s. server_lives Some (\<lambda>q. 0) unit_app_lib True
       (task_outcome (demo_vm [2, 3, 0, 1]) demo_emulator (prove_embed_onchain (demo_lib :: (nat list, nat) gnark_lib)) 1)
       empty_db [demo_stored bs, s] \<and>
     answers s = [(unit_key, Some bs)] \<and>
     backed (demo_vm [2, 3, 0, 1]) demo_emulator (demo_lib :: (nat list, nat) gnark_lib) unit_task bs"
proof -
  let ?p = "task_outcome (demo_vm [2, 3, 0, 1]) demo_emulator (prove_embed_onchain (demo_lib :: (nat list, nat) gnark_lib)) 1"
  have "returns (prove_embed_onchain (demo_lib :: (nat list, nat) gnark_lib) ep)" for ep
    using demo_onchain_returns [of ep] by (auto simp: returns_iff)
  then obtain bs where bs: "?p unit_task (Ret (Inr bs))"
    using demo_task_returns [of "prove_embed_onchain demo_lib"] by (auto simp: task_outcome_def demo_task_unit)
  obtain s where s: "server_steps Some (\<lambda>q. 0) unit_app_lib True ?p (server_start demo_cfg (server_db (demo_stored bs))) s"
    "answers s = [(unit_key, Some bs)]" "accepted s = []"
    using demo_second_life [of ?p bs] by blast
  have lives: "server_lives Some (\<lambda>q. 0) unit_app_lib True ?p empty_db ([demo_stored bs] @ [s])"
    using demo_server_stored [of ?p bs, OF bs] s(1) by auto
  have short: "length recs < 2 ^ 64"
    if "t \<in> set ([demo_stored bs] @ [s])" "task \<in> set (accepted t)" "task_records demo_emulator task = Some recs" for t task recs
    using that demo_records s(3) by (auto simp: demo_stored_def demo_task_unit)
  have "backed (demo_vm [2, 3, 0, 1]) demo_emulator (demo_lib :: (nat list, nat) gnark_lib) unit_task bs"
    using restarts_serve_verified [OF unit_app_lib_conforms lives, of unit_key bs] short s(2,3)
    by (auto simp: demo_stored_def empty_db_def)
  with lives s(2) show ?thesis by auto
qed

text \<open>A task that proves: no GPU, at least two records, and a verifier that accepts the complete run.\<close>

definition provable_task ::
  "('pk, 'vk, 'r, 'p, 'e, 'o) pico_vm \<Rightarrow> ('g, 'r, 'm) emulator_lib \<Rightarrow> ('g, 'pk, 'vk) proving_task \<Rightarrow> bool" where
  "provable_task vm lib task \<longleftrightarrow> \<not> use_gpu task \<and>
     (\<exists>recs. task_records lib task = Some recs \<and> 2 \<le> length recs \<and> length recs < 2 ^ 64 \<and> verifier_accepts vm task recs)"

lemma provable_outcome:
  assumes "provable_task vm lib task" and "0 < n" and "vm_returns vm" and "\<And>ep. returns (onchain ep)"
  shows "\<exists>bs. task_outcome vm lib onchain n task (Ret (Inr bs))"
proof -
  obtain recs where recs: "task_records lib task = Some recs" "2 \<le> length recs" "length recs < 2 ^ 64"
    "verifier_accepts vm task recs" and gpu: "\<not> use_gpu task"
    using assms(1) by (auto simp: provable_task_def)
  obtain s where s: "reachable vm task recs n onchain s" "\<And>t. \<not> psys_step (task_handle vm task) onchain s t"
    using reachable_stuck [of vm task onchain recs n "psys_init recs n"] recs(3) by auto
  then obtain bs where "prove_task_result s = Some (Inr bs)"
    using stuck_has_result [OF s(1) recs(3) assms(2) recs(2) assms(3) recs(4)] assms(4) by blast
  with recs(1) s(1) gpu show ?thesis by (auto simp: task_outcome_def prove_task_returns_reachable)
qed

lemma provable_no_panic:
  assumes "provable_task vm lib task"
  shows "\<not> task_outcome vm lib onchain n task (Panic m)"
proof -
  obtain recs where "task_records lib task = Some recs" "\<not> use_gpu task" using assms by (auto simp: provable_task_def)
  then have "prove_task_start vm lib task n = Some (Ret (psys_init recs n, None))" by (simp add: task_records_start)
  then show ?thesis by (simp add: task_outcome_def prove_task_panics_def)
qed

lemma provable_no_error:
  assumes "provable_task vm lib task" and "\<And>ep. returns (onchain ep)"
  shows "\<not> task_outcome vm lib onchain n task (Ret (Inl e))"
proof
  assume "task_outcome vm lib onchain n task (Ret (Inl e))"
  with assms(1) obtain recs s where "reachable vm task recs n onchain s" "length recs < 2 ^ 64" "prove_task_result s = Some (Inl e)"
    by (auto simp: task_outcome_def prove_task_returns_reachable provable_task_def)
  from result_error [OF this] assms(2) show False by (metis returns_iff outcome.distinct(1))
qed


lemma demo_provable: "provable_task (demo_vm [2, 3, 0, 1]) demo_emulator unit_task"
proof -
  have "verifier_accepts (demo_vm [2, 3, 0, 1]) unit_task [2, 3, 0, 1]"
    using demo_accepts [of "[2, 3, 0, 1]" "[2, 3, 0, 1]"] by (simp add: demo_task_unit)
  then show ?thesis using demo_records by (simp add: provable_task_def demo_task_unit unit_task_def)
qed




text \<open>A task that can only panic: no GPU support, inputs that do not deserialise, a panic of the emulator.\<close>

definition bad_task :: "('g, 'r, 'm) emulator_lib \<Rightarrow> nat \<Rightarrow> ('g, 'pk, 'vk) proving_task \<Rightarrow> bool" where
  "bad_task lib n task \<longleftrightarrow>
     use_gpu task \<and> 0 < n \<or>
     (\<exists>bs e. task_inputs task = Some bs \<and> el_deserialize lib bs = Inl e) \<or>
     (\<exists>em recs m. emulator_setup lib task = Ret em \<and> emulation (el_next_record_batch lib) em recs (Some m))"

lemma bad_task_outcome:
  assumes "bad_task lib n task"
  shows "(\<exists>m. task_outcome vm lib onchain n task (Panic m)) \<and> \<not> task_outcome vm lib onchain n task (Ret r)"
proof -
  have "emulator_thread (el_next_record_batch lib) em = Some (recs, Some m)"
    if "emulation (el_next_record_batch lib) em recs (Some m)" for em recs m using that by (rule emulation_thread)
  with assms show ?thesis
    by (fastforce simp: bad_task_def task_outcome_def prove_task_returns_def prove_task_panics_def prove_task_start_def
        Prover_new_cuda_def emulator_setup_def split: outcome.splits)
qed

text \<open>
  C29. One bad task stops the service for everybody: once the queue works on a task that asks for a
  GPU, whose inputs do not deserialise, or on which the emulator panics, \<^verbatim>\<open>prove_task\<close> can only
  panic, and whatever happens afterwards, no task is ever finished again, while new tasks are
  still accepted.
\<close>

theorem bad_task_ends_queue:
  assumes "bad_task lib n task" and "phase s = Working task"
    and "server_steps parse len apps_lib fk (task_outcome vm lib onchain n) s s'"
  shows "(\<exists>m. task_outcome vm lib onchain n task (Panic m)) \<and>
    finished s' = finished s \<and> phase s' \<in> {Working task, Ended task}"
proof -
  have "finished s' = finished s \<and> (phase s' = Working task \<or> phase s' = Ended task)" using assms(3)
  proof (induction rule: rtranclp_induct)
    case base
    show ?case using assms(2) by simp
  next
    case (step s1 s2)
    from step.hyps(2) step.IH show ?case
      using bad_task_outcome [OF assms(1), of vm onchain]
      by (induction rule: server_step.induct) (auto simp: server_set_defs)
  qed
  with bad_task_outcome [OF assms(1)] show ?thesis by blast
qed

theorem bad_task_ends_queue_witness:
  "\<exists>m. task_outcome (demo_vm [2, 3, 0, 1]) demo_emulator (\<lambda>e. Ret (Inr [])) 1 (unit_task\<lparr>use_gpu := True\<rparr>) (Panic m)"
proof -
  let ?s = "server_start demo_cfg empty_db\<lparr>phase := Working (unit_task\<lparr>use_gpu := True\<rparr>)\<rparr>"
  have "bad_task demo_emulator 1 (unit_task\<lparr>use_gpu := True\<rparr>)" by (simp add: bad_task_def)
  then show ?thesis
    using bad_task_ends_queue [of demo_emulator 1 "unit_task\<lparr>use_gpu := True\<rparr>" ?s Some "\<lambda>q. 0" unit_app_lib True
        "demo_vm [2, 3, 0, 1]" "\<lambda>e. Ret (Inr [])" ?s] by simp
qed

text \<open>
  A task on which \<^verbatim>\<open>prove_task\<close> waits forever: the program never ends, or no prover is configured, or
  no combination of two or more records from the first on verifies (so also a program of fewer
  than two records).
\<close>

definition stuck_task ::
  "('pk, 'vk, 'r, 'p, 'e, 'o) pico_vm \<Rightarrow> ('g, 'r, 'm) emulator_lib \<Rightarrow> nat \<Rightarrow> ('g, 'pk, 'vk) proving_task \<Rightarrow> bool" where
  "stuck_task vm lib n task \<longleftrightarrow> \<not> (use_gpu task \<and> 0 < n) \<and>
     (\<exists>em. emulator_setup lib task = Ret em \<and>
       ((\<forall>recs p. \<not> emulation (el_next_record_batch lib) em recs p) \<or>
        (\<exists>recs. emulation (el_next_record_batch lib) em recs None \<and> length recs < 2 ^ 64 \<and>
           (n = 0 \<or> (\<forall>p j ep. covers vm task recs p 0 j \<longrightarrow> 0 < j \<longrightarrow> \<not> embeds vm task p ep)))))"

lemma stuck_no_outcome:
  assumes "stuck_task vm lib n task"
  shows "\<not> task_outcome vm lib onchain n task r"
proof -
  obtain em where em: "emulator_setup lib task = Ret em" and gpu: "\<not> (use_gpu task \<and> 0 < n)"
    using assms by (auto simp: stuck_task_def)
  with assms consider (endless) "\<And>recs p. \<not> emulation (el_next_record_batch lib) em recs p"
    | (ends) recs where "emulation (el_next_record_batch lib) em recs None" "length recs < 2 ^ 64"
        "n = 0 \<or> (\<forall>ep. \<not> embed_ok (covers vm task recs) (embeds vm task) ep)"
    by (auto simp: stuck_task_def embed_ok_def)
  then show ?thesis
  proof cases
    case endless
    then have "emulator_thread (el_next_record_batch lib) em = None"
      by (cases "emulator_thread (el_next_record_batch lib) em") (auto simp: emulator_thread_iff)
    with em gpu show ?thesis
      by (auto simp: task_outcome_def prove_task_returns_def prove_task_panics_def prove_task_start_def split: outcome.splits)
  next
    case (ends recs)
    have recs: "task_records lib task = Some recs" using em emulation_thread [OF ends(1)] by (simp add: task_records_def)
    have "prove_task_result s = None" if "reachable vm task recs n onchain s" for s
      using that ends(2,3) no_provers_no_result [of vm task onchain recs s] unverified_no_result [OF that] by blast
    moreover have "prove_task_start vm lib task n = Some (Ret (psys_init recs n, None))"
      using recs gpu by (simp add: task_records_start)
    ultimately show ?thesis using recs
      by (auto simp: task_outcome_def prove_task_returns_reachable prove_task_panics_def split: outcome.splits)
  qed
qed

text \<open>
  C30. One stuck task blocks the service for everybody: once the queue works on a task whose program
  never ends, of whose records no combination verifies, or for which no prover was configured,
  it works on that task forever; no other task is ever finished.
\<close>

theorem stuck_task_blocks_queue:
  assumes "stuck_task vm lib n task" and "phase s = Working task"
    and "server_steps parse len apps_lib fk (task_outcome vm lib onchain n) s s'"
  shows "phase s' = Working task \<and> finished s' = finished s"
  using assms(3)
proof (induction rule: rtranclp_induct)
  case (step s1 s2)
  from step.hyps(2) step.IH show ?case
    using stuck_no_outcome [OF assms(1)] by (induction rule: server_step.induct) (auto simp: server_set_defs)
qed (use assms(2) in simp)

theorem stuck_task_blocks_queue_witness:
  "\<exists>s. server_steps Some (\<lambda>q. 0) unit_app_lib True (task_outcome (demo_vm [7]) demo_emulator (\<lambda>e. Ret (Inr [])) 1)
       (server_start demo_cfg empty_db) s \<and>
     accepted s = [unit_task, unit_task] \<and> phase s = Working unit_task \<and> finished s = []"
proof -
  let ?p = "task_outcome (demo_vm [7]) demo_emulator (\<lambda>e. Ret (Inr [])) 1"
  let ?w = "\<lparr>svc = demo_service Map.empty unit_db [], phase = Working unit_task, registering = [], sending = [], reading = [],
      accepted = [unit_task], finished = [], answers = []\<rparr>"
  have none: "\<not> embeds (demo_vm [7]) unit_task p ep" if "covers (demo_vm [7]) unit_task [2, 3, 0, 1] p 0 j" "0 < j" for p j ep
    using that demo_covers [of "[7]" "[2, 3, 0, 1]" p 0 j] demo_embeds [of "[7]" p ep] by (auto simp: demo_task_unit upt_rec)
  have "emulator_setup demo_emulator unit_task = Ret 1"
    by (simp add: emulator_setup_def demo_emulator_def unit_task_def)
  with demo_emulation none have stuck: "stuck_task (demo_vm [7]) demo_emulator 1 unit_task"
    unfolding stuck_task_def by (auto simp: unit_task_def intro!: exI [of _ "[2, 3, 0, 1]"])
  obtain s where s: "server_steps Some (\<lambda>q. 0) unit_app_lib True ?p ?w s" "accepted s = [unit_task, unit_task]"
    using prove_run [of Some "\<lambda>q. 0" ?w "demo_call (CallProveTask unit_request)" unit_request unit_app_lib unit_app True ?p]
    by (auto simp: demo_admitted unit_found unit_task_for)
  have "phase s = Working unit_task \<and> finished s = finished ?w"
    by (rule stuck_task_blocks_queue [OF stuck _ s(1)]) simp
  with s rtranclp_trans [OF demo_server_working s(1)] show ?thesis by auto
qed

end
